theory Spec2Isabelle
  imports Complex_Main
begin

section \<open>Configuration\<close>

text \<open>
  The module constants of \<^verbatim>\<open>main.py\<close>. Python floats are modelled as exact real
  numbers: every quantity below that is a float in the source is a \<^typ>\<open>real\<close> here,
  so rounding is not part of the model.
\<close>

definition TILE :: int where "TILE = 48"
definition GRID_W :: int where "GRID_W = 11"
definition SCREEN_W :: int where "SCREEN_W = GRID_W * TILE"
definition SCREEN_H :: int where "SCREEN_H = 14 * TILE"
definition START_SAFE_ROWS :: int where "START_SAFE_ROWS = 6"
definition LANE_LOOKAHEAD :: int where "LANE_LOOKAHEAD = 55"

definition CAR_SPEED_MIN :: real where "CAR_SPEED_MIN = 120"
definition CAR_SPEED_MAX :: real where "CAR_SPEED_MAX = 170"
definition LOG_SPEED_MIN :: real where "LOG_SPEED_MIN = 90"
definition LOG_SPEED_MAX :: real where "LOG_SPEED_MAX = 130"
definition TRAIN_SPEED :: real where "TRAIN_SPEED = 600"

definition CAR_SPAWN_MIN :: real where "CAR_SPAWN_MIN = 1.00"
definition CAR_SPAWN_MAX :: real where "CAR_SPAWN_MAX = 1.60"
definition LOG_SPAWN_MIN :: real where "LOG_SPAWN_MIN = 1.10"
definition LOG_SPAWN_MAX :: real where "LOG_SPAWN_MAX = 1.70"

definition TRAIN_INTERVAL_MIN :: real where "TRAIN_INTERVAL_MIN = 6.0"
definition TRAIN_INTERVAL_MAX :: real where "TRAIN_INTERVAL_MAX = 10.0"
definition TRAIN_WARNING_TIME :: real where "TRAIN_WARNING_TIME = 1.1"

definition MIN_GAP :: real where "MIN_GAP = real_of_int TILE * 0.75"

definition LOG_DIP_DURATION :: real where "LOG_DIP_DURATION = 0.18"

section \<open>Difficulty\<close>

text \<open>\<^verbatim>\<open>difficulty(score)\<close>, branch by branch as in the source.\<close>

definition difficulty :: "int \<Rightarrow> real" where
  "difficulty score =
     (if score \<le> 0 then 0.60
      else if score < 20 then 0.60 + (real_of_int score / 20.0) * (1.00 - 0.60)
      else if score < 80 then 1.00 + (real_of_int (score - 20) / 60.0) * (1.45 - 1.00)
      else 1.45)"

text \<open>
  The piecewise function as the specification words it (section 4.1 and the scenario of
  section 8), to be compared with \<^const>\<open>difficulty\<close>.
\<close>

definition difficulty_spec :: "int \<Rightarrow> real" where
  "difficulty_spec s =
     (if s \<le> 0 then 0.60
      else if 0 < s \<and> s < 20 then 0.60 + (real_of_int s / 20) * 0.40
      else if 20 \<le> s \<and> s < 80 then 1.00 + ((real_of_int s - 20) / 60) * 0.45
      else 1.45)"

section \<open>The random source and object identity\<close>

text \<open>
  \<^verbatim>\<open>random.Random\<close> belongs to the Python standard library, not to the repository.
  It is modelled as a tape of natural numbers read front to back: each primitive draw
  (\<^verbatim>\<open>_randbelow\<close>, \<^verbatim>\<open>random\<close>) consumes one cell. \<^verbatim>\<open>random()\<close> yields a
  53-bit fraction in \<open>[0, 1)\<close>; \<^verbatim>\<open>uniform\<close>, \<^verbatim>\<open>choice\<close>, \<^verbatim>\<open>randint\<close>,
  \<^verbatim>\<open>randrange\<close> and \<^verbatim>\<open>shuffle\<close> are written on top of the two primitives the way
  the library writes them. A statement quantified over every tape holds for every seed.

  The source compares obstacles by object identity (\<^verbatim>\<open>is\<close>). Every obstacle
  therefore carries an identifier \<open>oid\<close>, taken from an allocation counter that is
  threaded together with the tape.
\<close>

record env =
  tape :: "nat \<Rightarrow> nat"
  fresh :: nat

definition randbelow :: "nat \<Rightarrow> env \<Rightarrow> nat \<times> env" where
  "randbelow n g = (tape g 0 mod n, g\<lparr>tape := (\<lambda>i. tape g (Suc i))\<rparr>)"

definition random :: "env \<Rightarrow> real \<times> env" where
  "random g = (real (tape g 0 mod 2 ^ 53) / 2 ^ 53, g\<lparr>tape := (\<lambda>i. tape g (Suc i))\<rparr>)"

definition uniform :: "real \<Rightarrow> real \<Rightarrow> env \<Rightarrow> real \<times> env" where
  "uniform a b g = (case random g of (u, g') \<Rightarrow> (a + (b - a) * u, g'))"

text \<open>
  \<^verbatim>\<open>choice(seq)\<close> is \<^verbatim>\<open>seq[_randbelow(len(seq))]\<close>. The source calls it on
  non-empty sequences only (literal lists, and \<^verbatim>\<open>sorted(prev_open_cols)\<close> behind a
  non-emptiness test), so the index is always in range.
\<close>

definition choice :: "'a list \<Rightarrow> env \<Rightarrow> 'a \<times> env" where
  "choice xs g = (case randbelow (length xs) g of (i, g') \<Rightarrow> (xs ! i, g'))"

definition randint :: "int \<Rightarrow> int \<Rightarrow> env \<Rightarrow> int \<times> env" where
  "randint a b g = (case randbelow (nat (b - a + 1)) g of (k, g') \<Rightarrow> (a + int k, g'))"

definition randrange :: "int \<Rightarrow> env \<Rightarrow> int \<times> env" where
  "randrange n g = (case randbelow (nat n) g of (k, g') \<Rightarrow> (int k, g'))"

text \<open>
  \<^verbatim>\<open>shuffle(x)\<close>: for \<open>i\<close> from \<open>len(x) - 1\<close> down to \<open>1\<close>, swap \<open>x[i]\<close> with
  \<open>x[j]\<close>, where \<open>j = _randbelow(i + 1)\<close>.
\<close>

fun shuffle_loop :: "nat \<Rightarrow> 'a list \<Rightarrow> env \<Rightarrow> 'a list \<times> env" where
  "shuffle_loop 0 xs g = (xs, g)"
| "shuffle_loop (Suc i) xs g =
     (case randbelow (Suc i + 1) g of
        (j, g') \<Rightarrow> shuffle_loop i (xs[Suc i := xs ! j, j := xs ! Suc i]) g')"

definition shuffle :: "'a list \<Rightarrow> env \<Rightarrow> 'a list \<times> env" where
  "shuffle xs g = shuffle_loop (length xs - 1) xs g"

section \<open>Obstacles and lanes\<close>

datatype lane_type = LANE_GRASS | LANE_ROAD | LANE_RIVER | LANE_RAIL

datatype py_error = ZeroDivisionError

record obstacle =
  oid :: nat
  ob_x :: real
  ob_w :: real
  ob_base_speed :: real
  ob_dir :: int

text \<open>\<^verbatim>\<open>Obstacle.update(dt, speed_mult)\<close>.\<close>

definition Obstacle_update :: "real \<Rightarrow> real \<Rightarrow> obstacle \<Rightarrow> obstacle" where
  "Obstacle_update dt speed_mult ob =
     ob\<lparr>ob_x := ob_x ob + real_of_int (ob_dir ob) * (ob_base_speed ob * speed_mult) * dt\<rparr>"

text \<open>
  The fields of \<^verbatim>\<open>Lane\<close>. The field \<^verbatim>\<open>rng\<close> is a reference to the world's random
  source; the model threads that source (\<^typ>\<open>env\<close>) through every operation that draws
  from it.
\<close>

record lane =
  l_row :: int
  l_type :: lane_type
  obstacles :: "obstacle list"
  blocked_cols :: "int set"
  direction :: int
  spawn_timer :: real
  base_spawn_interval :: real
  base_speed :: real
  train_timer :: real
  train_warning :: real
  train_active :: bool
  train_x :: real
  train_dir :: int

definition is_blocked :: "lane \<Rightarrow> int \<Rightarrow> bool" where
  "is_blocked l c = (c \<in> blocked_cols l)"

definition open_cols :: "lane \<Rightarrow> int set" where
  "open_cols l =
     (if l_type l \<noteq> LANE_GRASS then {0..<GRID_W} else {0..<GRID_W} - blocked_cols l)"

subsection \<open>Grass corridor logic\<close>

text \<open>
  \<^verbatim>\<open>_init_grass\<close>, in the pieces the source computes one after the other. The
  parameter \<open>prev_open_cols\<close> is \<open>None\<close> for Python's \<^verbatim>\<open>None\<close>.
\<close>

definition safe_corridor :: "int set" where
  "safe_corridor =
     (let center = GRID_W div 2 in {max 0 (center - 1), center, min (GRID_W - 1) (center + 1)})"

text \<open>The corridor centre beyond the safe zone: from the previous row's open columns when
  there are any, any column otherwise.\<close>

definition corridor_center :: "int set option \<Rightarrow> env \<Rightarrow> int \<times> env" where
  "corridor_center prev_open_cols g =
     (case prev_open_cols of
        None \<Rightarrow> randrange GRID_W g
      | Some s \<Rightarrow>
          if s \<noteq> {} \<and> card s > 0 then choice (sorted_list_of_set s) g
          else randrange GRID_W g)"

text \<open>The loop \<^verbatim>\<open>for dx in range(-(corridor_width // 2), (corridor_width // 2) + 1)\<close>.\<close>

definition corridor_cols :: "int \<Rightarrow> int \<Rightarrow> int set" where
  "corridor_cols center corridor_width =
     (\<lambda>dx. max 0 (min (GRID_W - 1) (center + dx))) `
       set [- (corridor_width div 2) .. (corridor_width div 2 + 1) - 1]"

definition candidates :: "int set \<Rightarrow> int list" where
  "candidates corridor = filter (\<lambda>c. c \<notin> corridor) [0 .. GRID_W - 1]"

text \<open>The tree loop beyond the safe zone, with its two \<^verbatim>\<open>break\<close>s.\<close>

fun block_loop :: "int \<Rightarrow> int list \<Rightarrow> int set \<Rightarrow> int set" where
  "block_loop target_trees [] blocked = blocked"
| "block_loop target_trees (c # cs) blocked =
     (if int (card blocked) \<ge> target_trees then blocked
      else if GRID_W - (int (card blocked) + 1) < 3 then blocked
      else block_loop target_trees cs (insert c blocked))"

definition init_grass :: "int set option \<Rightarrow> lane \<Rightarrow> env \<Rightarrow> lane \<times> env" where
  "init_grass prev_open_cols l g =
     (if l_row l < START_SAFE_ROWS then
        (case randint 0 2 g of (target_trees, g1) \<Rightarrow>
         case shuffle (candidates safe_corridor) g1 of (cands, g2) \<Rightarrow>
           (l\<lparr>blocked_cols := blocked_cols l \<union> set (take (nat target_trees) cands)\<rparr>, g2))
      else
        (case corridor_center prev_open_cols g of (center, g1) \<Rightarrow>
         case choice [2, 3] g1 of (corridor_width, g2) \<Rightarrow>
         case randint 2 5 g2 of (target_trees, g3) \<Rightarrow>
         case shuffle (candidates (corridor_cols center corridor_width)) g3 of (cands, g4) \<Rightarrow>
           (l\<lparr>blocked_cols :=
                block_loop target_trees cands (blocked_cols l)
                  - corridor_cols center corridor_width\<rparr>, g4)))"

text \<open>
  The corridor \<^verbatim>\<open>_init_grass\<close> computes for a lane beyond the safe zone (a local
  variable of the source), as a function of the same arguments.
\<close>

definition grass_corridor :: "int set option \<Rightarrow> env \<Rightarrow> int set" where
  "grass_corridor prev_open_cols g =
     (case corridor_center prev_open_cols g of (center, g1) \<Rightarrow>
      case choice [2, 3] g1 of (corridor_width, g2) \<Rightarrow> corridor_cols center corridor_width)"

subsection \<open>Spawning and spacing\<close>

definition edge_spawn_x :: "lane \<Rightarrow> real \<Rightarrow> env \<Rightarrow> real \<times> env" where
  "edge_spawn_x l wd g =
     (if direction l = 1 then
        (case uniform 0 (real_of_int (TILE * 2)) g of (u, g') \<Rightarrow> (- wd - u, g'))
      else
        (case uniform 0 (real_of_int (TILE * 2)) g of (u, g') \<Rightarrow> (real_of_int SCREEN_W + u, g')))"

text \<open>Python's \<^verbatim>\<open>min(seq, key=...)\<close> and \<^verbatim>\<open>max(seq, key=...)\<close>: the first element
  with the least (greatest) key.\<close>

fun min_by :: "('a \<Rightarrow> real) \<Rightarrow> 'a \<Rightarrow> 'a list \<Rightarrow> 'a" where
  "min_by key best [] = best"
| "min_by key best (y # ys) = min_by key (if key y < key best then y else best) ys"

fun max_by :: "('a \<Rightarrow> real) \<Rightarrow> 'a \<Rightarrow> 'a list \<Rightarrow> 'a" where
  "max_by key best [] = best"
| "max_by key best (y # ys) = max_by key (if key y > key best then y else best) ys"

definition can_spawn_with_gap :: "lane \<Rightarrow> real \<Rightarrow> real \<Rightarrow> bool" where
  "can_spawn_with_gap l xpos wd =
     (case obstacles l of
        [] \<Rightarrow> True
      | o1 # os \<Rightarrow>
          if direction l = 1 then
            (let nearest = min_by ob_x o1 os in xpos + wd \<le> ob_x nearest - MIN_GAP)
          else
            (let nearest = max_by (\<lambda>ob. ob_x ob + ob_w ob) o1 os
             in xpos \<ge> ob_x nearest + ob_w nearest + MIN_GAP))"

text \<open>The \<^verbatim>\<open>for\<close> loop of \<^verbatim>\<open>_enforce_no_overlap\<close>, \<open>prev\<close> being the obstacle before.\<close>

fun push_loop :: "obstacle \<Rightarrow> obstacle list \<Rightarrow> obstacle list" where
  "push_loop prev [] = []"
| "push_loop prev (cur # rest) =
     (let min_x = ob_x prev + ob_w prev + MIN_GAP;
          cur' = (if ob_x cur < min_x then cur\<lparr>ob_x := min_x\<rparr> else cur)
      in cur' # push_loop cur' rest)"

definition enforce_no_overlap :: "lane \<Rightarrow> lane" where
  "enforce_no_overlap l =
     (if length (obstacles l) \<le> 1 then l
      else (case sort_key ob_x (obstacles l) of
              [] \<Rightarrow> l
            | prev # rest \<Rightarrow> l\<lparr>obstacles := prev # push_loop prev rest\<rparr>))"

text \<open>\<^verbatim>\<open>Obstacle(x, w, base_speed, direction)\<close> allocates a new object.\<close>

definition new_obstacle :: "real \<Rightarrow> real \<Rightarrow> real \<Rightarrow> int \<Rightarrow> env \<Rightarrow> obstacle \<times> env" where
  "new_obstacle xpos wd spd d g =
     (\<lparr>oid = fresh g, ob_x = xpos, ob_w = wd, ob_base_speed = spd, ob_dir = d\<rparr>,
      g\<lparr>fresh := Suc (fresh g)\<rparr>)"

definition spawn_obstacle :: "lane \<Rightarrow> env \<Rightarrow> lane \<times> env" where
  "spawn_obstacle l g =
     (if l_type l = LANE_ROAD then
        (let wd = real_of_int (1 * TILE) in
         case edge_spawn_x l wd g of (xpos, g1) \<Rightarrow>
           if can_spawn_with_gap l xpos wd then
             (case new_obstacle xpos wd (base_speed l) (direction l) g1 of
                (ob, g2) \<Rightarrow> (l\<lparr>obstacles := obstacles l @ [ob]\<rparr>, g2))
           else (l, g1))
      else if l_type l = LANE_RIVER then
        (case choice [2, 2, 3] g of (w_tiles, g0) \<Rightarrow>
         let wd = real_of_int (w_tiles * TILE) in
         case edge_spawn_x l wd g0 of (xpos, g1) \<Rightarrow>
           if can_spawn_with_gap l xpos wd then
             (case new_obstacle xpos wd (base_speed l) (direction l) g1 of
                (ob, g2) \<Rightarrow> (l\<lparr>obstacles := obstacles l @ [ob]\<rparr>, g2))
           else (l, g1))
      else (l, g))"

fun seed_obstacles :: "nat \<Rightarrow> lane \<Rightarrow> env \<Rightarrow> lane \<times> env" where
  "seed_obstacles 0 l g = (l, g)"
| "seed_obstacles (Suc n) l g =
     (case spawn_obstacle l g of (l', g') \<Rightarrow> seed_obstacles n l' g')"

subsection \<open>Construction\<close>

text \<open>\<^verbatim>\<open>Lane.__init__(row, lane_type, rng, prev_open_cols)\<close>.\<close>

definition Lane_init :: "int \<Rightarrow> lane_type \<Rightarrow> int set option \<Rightarrow> env \<Rightarrow> lane \<times> env" where
  "Lane_init row ty prev_open_cols g =
     (let (d, g1) = choice [-1, 1] g;
          (tt, g2) = uniform TRAIN_INTERVAL_MIN TRAIN_INTERVAL_MAX g1;
          (td, g3) = choice [-1, 1] g2;
          l = \<lparr>l_row = row, l_type = ty, obstacles = [], blocked_cols = {},
               direction = d, spawn_timer = 0, base_spawn_interval = 1, base_speed = 0,
               train_timer = tt, train_warning = 0, train_active = False, train_x = 0,
               train_dir = td\<rparr>
      in (case ty of
            LANE_GRASS \<Rightarrow> init_grass prev_open_cols l g3
          | LANE_ROAD \<Rightarrow>
              (let (bi, g4) = uniform CAR_SPAWN_MIN CAR_SPAWN_MAX g3;
                   (bs, g5) = uniform CAR_SPEED_MIN CAR_SPEED_MAX g4;
                   (cnt, g6) = choice [1, 1, 2] g5
               in seed_obstacles cnt (l\<lparr>base_spawn_interval := bi, base_speed := bs\<rparr>) g6)
          | LANE_RIVER \<Rightarrow>
              (let (bi, g4) = uniform LOG_SPAWN_MIN LOG_SPAWN_MAX g3;
                   (bs, g5) = uniform LOG_SPEED_MIN LOG_SPEED_MAX g4;
                   (cnt, g6) = choice [1, 2] g5
               in seed_obstacles cnt (l\<lparr>base_spawn_interval := bi, base_speed := bs\<rparr>) g6)
          | LANE_RAIL \<Rightarrow>
              (let (tt', g4) = uniform TRAIN_INTERVAL_MIN TRAIN_INTERVAL_MAX g3
               in (l\<lparr>train_timer := tt'\<rparr>, g4))))"

subsection \<open>Train logic\<close>

text \<open>Float division by zero raises \<^verbatim>\<open>ZeroDivisionError\<close>; the draw happens first.\<close>

definition roll_next_train_interval :: "real \<Rightarrow> env \<Rightarrow> py_error + real \<times> env" where
  "roll_next_train_interval diff g =
     (let (base, g') = uniform TRAIN_INTERVAL_MIN TRAIN_INTERVAL_MAX g
      in if diff = 0 then Inl ZeroDivisionError else Inr (base / diff, g'))"

definition spawn_train :: "lane \<Rightarrow> lane" where
  "spawn_train l =
     l\<lparr>train_active := True,
       train_warning := 0,
       train_x := (if train_dir l = 1 then real_of_int (- TILE * 12)
                   else real_of_int (SCREEN_W + TILE * 12))\<rparr>"

definition finish_train :: "real \<Rightarrow> lane \<Rightarrow> env \<Rightarrow> py_error + lane \<times> env" where
  "finish_train diff l g =
     (case roll_next_train_interval diff g of
        Inl e \<Rightarrow> Inl e
      | Inr (t, g1) \<Rightarrow>
          (let (u, g2) = random g1
           in Inr (l\<lparr>train_active := False,
                     train_timer := t,
                     train_dir := (if u < 0.5 then train_dir l * (-1) else train_dir l)\<rparr>,
                   g2)))"

subsection \<open>The per-tick update of a lane\<close>

text \<open>
  \<^verbatim>\<open>Lane.update(dt, diff)\<close> in the three blocks of the source: move and cull, spawn
  and enforce spacing (road and river lanes), train logic (rail lanes).
\<close>

definition update_move_cull :: "real \<Rightarrow> real \<Rightarrow> lane \<Rightarrow> lane" where
  "update_move_cull dt diff l =
     (let speed_mult = diff;
          moved = map (Obstacle_update dt speed_mult) (obstacles l);
          margin = TILE * 5;
          left_bound = real_of_int (- margin);
          right_bound = real_of_int (SCREEN_W + margin)
      in l\<lparr>obstacles :=
             filter (\<lambda>ob. ob_x ob + ob_w ob > left_bound \<and> ob_x ob < right_bound) moved\<rparr>)"

definition update_spawn :: "real \<Rightarrow> real \<Rightarrow> lane \<Rightarrow> env \<Rightarrow> py_error + lane \<times> env" where
  "update_spawn dt diff l g =
     (if l_type l = LANE_ROAD \<or> l_type l = LANE_RIVER then
        (if diff = 0 then Inl ZeroDivisionError
         else
           (let actual_interval = base_spawn_interval l / diff;
                l1 = l\<lparr>spawn_timer := spawn_timer l + dt\<rparr>;
                (l3, g3) =
                  (if spawn_timer l1 \<ge> actual_interval then
                     (let (bi, g1) =
                            (if l_type l1 = LANE_ROAD then uniform CAR_SPAWN_MIN CAR_SPAWN_MAX g
                             else uniform LOG_SPAWN_MIN LOG_SPAWN_MAX g)
                      in spawn_obstacle (l1\<lparr>spawn_timer := 0, base_spawn_interval := bi\<rparr>) g1)
                   else (l1, g))
            in Inr (enforce_no_overlap l3, g3)))
      else Inr (l, g))"

definition train_idle_tick :: "real \<Rightarrow> lane \<Rightarrow> lane" where
  "train_idle_tick dt l =
     (let l1 = l\<lparr>train_timer := train_timer l - dt\<rparr>;
          l2 = (if train_timer l1 \<le> TRAIN_WARNING_TIME \<and> train_warning l1 \<le> 0
                then l1\<lparr>train_warning := TRAIN_WARNING_TIME\<rparr> else l1)
      in if train_timer l2 \<le> 0 then spawn_train l2 else l2)"

definition train_active_tick :: "real \<Rightarrow> real \<Rightarrow> lane \<Rightarrow> env \<Rightarrow> py_error + lane \<times> env" where
  "train_active_tick dt diff l g =
     (let l1 = l\<lparr>train_x := train_x l + real_of_int (train_dir l) * (TRAIN_SPEED * diff) * dt\<rparr>
      in if train_dir l1 = 1 \<and> train_x l1 > real_of_int (SCREEN_W + TILE * 8)
           then finish_train diff l1 g
         else if train_dir l1 = -1 \<and> train_x l1 < real_of_int (- TILE * 12)
           then finish_train diff l1 g
         else Inr (l1, g))"

definition warning_tick :: "real \<Rightarrow> lane \<Rightarrow> lane" where
  "warning_tick dt l =
     (if train_warning l > 0 then
        (let l1 = l\<lparr>train_warning := train_warning l - dt\<rparr>
         in if train_warning l1 < 0 then l1\<lparr>train_warning := 0\<rparr> else l1)
      else l)"

definition update_train :: "real \<Rightarrow> real \<Rightarrow> lane \<Rightarrow> env \<Rightarrow> py_error + lane \<times> env" where
  "update_train dt diff l g =
     (if l_type l = LANE_RAIL then
        (case (if \<not> train_active l then Inr (train_idle_tick dt l, g)
               else train_active_tick dt diff l g) of
           Inl e \<Rightarrow> Inl e
         | Inr (l', g') \<Rightarrow> Inr (warning_tick dt l', g'))
      else Inr (l, g))"

definition Lane_update :: "real \<Rightarrow> real \<Rightarrow> lane \<Rightarrow> env \<Rightarrow> py_error + lane \<times> env" where
  "Lane_update dt diff l g =
     (case update_spawn dt diff (update_move_cull dt diff l) g of
        Inl e \<Rightarrow> Inl e
      | Inr (l', g') \<Rightarrow> update_train dt diff l' g')"

section \<open>World\<close>

record world =
  w_rng :: env
  lanes :: "int \<Rightarrow> lane option"
  max_generated_row :: int

definition recent_types :: "world \<Rightarrow> int \<Rightarrow> lane_type list" where
  "recent_types wd row =
     concat (map (\<lambda>i. case lanes wd (row - i) of None \<Rightarrow> [] | Some l \<Rightarrow> [l_type l])
                 [1, 2, 3])"

definition lane_weights :: "lane_type list \<Rightarrow> (lane_type \<times> int) list" where
  "lane_weights recent =
     (let river_streak = length (filter (\<lambda>t. t = LANE_RIVER) recent);
          rail_streak = length (filter (\<lambda>t. t = LANE_RAIL) recent);
          road_streak = length (filter (\<lambda>t. t = LANE_ROAD) recent)
      in if river_streak \<ge> 2 then
           [(LANE_GRASS, 7), (LANE_ROAD, 5), (LANE_RAIL, 5), (LANE_RIVER, 2)]
         else if rail_streak \<ge> 2 then
           [(LANE_GRASS, 7), (LANE_ROAD, 5), (LANE_RIVER, 5), (LANE_RAIL, 2)]
         else if road_streak \<ge> 2 then
           [(LANE_GRASS, 7), (LANE_RIVER, 5), (LANE_RAIL, 5), (LANE_ROAD, 2)]
         else
           [(LANE_GRASS, 6), (LANE_ROAD, 5), (LANE_RIVER, 5), (LANE_RAIL, 5)])"

fun pick_weighted :: "real \<Rightarrow> int \<Rightarrow> (lane_type \<times> int) list \<Rightarrow> lane_type" where
  "pick_weighted pick acc [] = LANE_GRASS"
| "pick_weighted pick acc ((t, wt) # rest) =
     (let acc' = acc + wt
      in if pick \<le> real_of_int acc' then t else pick_weighted pick acc' rest)"

definition choose_next_lane_type :: "int \<Rightarrow> world \<Rightarrow> lane_type \<times> world" where
  "choose_next_lane_type row wd =
     (let weights = lane_weights (recent_types wd row);
          total = sum_list (map snd weights);
          (pick, g') = uniform 0 (real_of_int total) (w_rng wd)
      in (pick_weighted pick 0 weights, wd\<lparr>w_rng := g'\<rparr>))"

definition ensure_lane :: "int \<Rightarrow> lane_type option \<Rightarrow> int set option \<Rightarrow> world \<Rightarrow> world" where
  "ensure_lane row forced_type prev_open_cols wd =
     (if lanes wd row \<noteq> None then wd
      else
        (let (lane_ty, wd1) =
               (case forced_type of
                  Some t \<Rightarrow> (t, wd)
                | None \<Rightarrow> choose_next_lane_type row wd);
             (l, g') = Lane_init row lane_ty prev_open_cols (w_rng wd1)
         in wd1\<lparr>w_rng := g',
                lanes := (lanes wd1)(row \<mapsto> l),
                max_generated_row := max (max_generated_row wd1) row\<rparr>))"

text \<open>The body of the loop of \<^verbatim>\<open>_generate_up_to\<close>, over the rows of its range.\<close>

fun generate_rows :: "int list \<Rightarrow> world \<Rightarrow> world" where
  "generate_rows [] wd = wd"
| "generate_rows (r # rs) wd =
     (let prev_open = (case lanes wd (r - 1) of
                         Some l \<Rightarrow> open_cols l
                       | None \<Rightarrow> {0..<GRID_W})
      in generate_rows rs (ensure_lane r None (Some prev_open) wd))"

definition generate_up_to :: "int \<Rightarrow> world \<Rightarrow> world" where
  "generate_up_to target_row wd = generate_rows [max_generated_row wd + 1 .. target_row] wd"

text \<open>
  The safe-zone loop of \<^verbatim>\<open>World.__init__\<close>. \<^verbatim>\<open>self.lanes[r]\<close> is read right after
  \<^verbatim>\<open>_ensure_lane(r, ...)\<close>, which leaves row \<open>r\<close> present.
\<close>

fun init_safe_rows :: "int list \<Rightarrow> int set \<Rightarrow> world \<Rightarrow> world" where
  "init_safe_rows [] prev_open wd = wd"
| "init_safe_rows (r # rs) prev_open wd =
     (let wd' = ensure_lane r (Some LANE_GRASS) (Some prev_open) wd
      in init_safe_rows rs (open_cols (the (lanes wd' r))) wd')"

text \<open>\<^verbatim>\<open>World.__init__(seed)\<close>; the argument is the random source the seed yields.\<close>

definition World_init :: "env \<Rightarrow> world" where
  "World_init g =
     (let wd0 = \<lparr>w_rng = g, lanes = Map.empty, max_generated_row = -1\<rparr>;
          wd1 = init_safe_rows [0 .. START_SAFE_ROWS - 1] {0..<GRID_W} wd0;
          wd2 = wd1\<lparr>max_generated_row := START_SAFE_ROWS - 1\<rparr>
      in generate_up_to (START_SAFE_ROWS + LANE_LOOKAHEAD) wd2)"

text \<open>The lane loop of \<^verbatim>\<open>World.update\<close>; an exception of a lane's update ends it.\<close>

fun update_lanes :: "real \<Rightarrow> real \<Rightarrow> int list \<Rightarrow> world \<Rightarrow> py_error + world" where
  "update_lanes dt diff [] wd = Inr wd"
| "update_lanes dt diff (r # rs) wd =
     (case lanes wd r of
        None \<Rightarrow> update_lanes dt diff rs wd
      | Some l \<Rightarrow>
          (case Lane_update dt diff l (w_rng wd) of
             Inl e \<Rightarrow> Inl e
           | Inr (l', g') \<Rightarrow>
               update_lanes dt diff rs (wd\<lparr>w_rng := g', lanes := (lanes wd)(r \<mapsto> l')\<rparr>)))"

definition prune :: "int \<Rightarrow> world \<Rightarrow> world" where
  "prune prune_before wd =
     wd\<lparr>lanes := (\<lambda>k. if k < prune_before then None else lanes wd k)\<rparr>"

definition World_update :: "real \<Rightarrow> int \<Rightarrow> real \<Rightarrow> world \<Rightarrow> py_error + world" where
  "World_update dt camera_row diff wd =
     (let wd1 = generate_up_to (camera_row + LANE_LOOKAHEAD) wd;
          min_row = max 0 (camera_row - 10);
          max_row = camera_row + LANE_LOOKAHEAD
      in case update_lanes dt diff [min_row .. max_row] wd1 of
           Inl e \<Rightarrow> Inl e
         | Inr wd2 \<Rightarrow> Inr (prune (camera_row - 30) wd2))"

text \<open>
  \<^verbatim>\<open>World.lane_at(row)\<close> returns the lane and leaves the world changed when the lane had
  to be generated. \<^verbatim>\<open>self.lanes[row]\<close> follows \<^verbatim>\<open>_ensure_lane(row, ...)\<close>, so the
  row is present.
\<close>

definition lane_at :: "int \<Rightarrow> world \<Rightarrow> lane \<times> world" where
  "lane_at row wd =
     (let wd' = ensure_lane row None None wd in (the (lanes wd' row), wd'))"

section \<open>Player\<close>

record player =
  p_col :: int
  p_row :: int
  x_px :: real
  dead :: bool
  max_row :: int
  was_on_log :: bool
  log_under :: "nat option"
  log_dip_t :: real

definition Player_init :: player where
  "Player_init =
     (let c = GRID_W div 2; r = 1
      in \<lparr>p_col = c, p_row = r, x_px = real_of_int (c * TILE) + real_of_int TILE / 2,
          dead = False, max_row = r, was_on_log = False, log_under = None, log_dip_t = 0\<rparr>)"

definition sync_col_from_x :: "player \<Rightarrow> player" where
  "sync_col_from_x p = p\<lparr>p_col := \<lfloor>x_px p / real_of_int TILE\<rfloor>\<rparr>"

definition snap_x_to_col :: "player \<Rightarrow> player" where
  "snap_x_to_col p = p\<lparr>x_px := real_of_int (p_col p * TILE) + real_of_int TILE / 2\<rparr>"

definition kill :: "player \<Rightarrow> player" where
  "kill p = p\<lparr>dead := True\<rparr>"

definition try_move :: "int \<Rightarrow> int \<Rightarrow> world \<Rightarrow> player \<Rightarrow> player \<times> world" where
  "try_move dcol drow wd p =
     (if dead p then (p, wd)
      else
        (let new_col = p_col p + dcol;
             new_row = p_row p + drow
         in if \<not> (0 \<le> new_col \<and> new_col < GRID_W) then (p, wd)
            else if new_row < 0 then (p, wd)
            else
              (let (la, wd') = lane_at new_row wd
               in if l_type la = LANE_GRASS \<and> is_blocked la new_col then (p, wd')
                  else
                    (snap_x_to_col
                       (p\<lparr>p_col := new_col, p_row := new_row,
                          max_row := max (max_row p) new_row\<rparr>),
                     wd'))))"

text \<open>
  \<^verbatim>\<open>Player.update\<close> leaves through \<^verbatim>\<open>return\<close> at several places. Each block of
  the source is a stage that either returns the player it has reached (\<open>Return\<close>) or
  hands it to the next block (\<open>Continue\<close>).
\<close>

datatype 'a flow = Return 'a | Continue 'a

definition overlaps :: "real \<Rightarrow> obstacle \<Rightarrow> bool" where
  "overlaps px ob = (ob_x ob \<le> px \<and> px \<le> ob_x ob + ob_w ob)"

definition river_stage :: "real \<Rightarrow> lane \<Rightarrow> player \<Rightarrow> player flow" where
  "river_stage dt la p =
     (if l_type la = LANE_RIVER then
        (case find (overlaps (x_px p)) (obstacles la) of
           None \<Rightarrow> Return (kill p)
         | Some ob \<Rightarrow>
             (let carry_dx =
                    real_of_int (ob_dir ob) * (ob_base_speed ob * difficulty (max_row p)) * dt;
                  p1 = (if \<not> was_on_log p \<or> log_under p \<noteq> Some (oid ob)
                        then p\<lparr>log_dip_t := LOG_DIP_DURATION\<rparr> else p);
                  p2 = p1\<lparr>log_under := Some (oid ob), was_on_log := True\<rparr>;
                  p3 = p2\<lparr>x_px := x_px p2 + carry_dx\<rparr>
              in if x_px p3 < 0 \<or> x_px p3 > real_of_int SCREEN_W then Return (kill p3)
                 else Continue (sync_col_from_x p3)))
      else Continue (p\<lparr>was_on_log := False, log_under := None\<rparr>))"

definition road_stage :: "lane \<Rightarrow> player \<Rightarrow> player flow" where
  "road_stage la p =
     (if l_type la = LANE_ROAD then
        (case find (overlaps (x_px p)) (obstacles la) of
           Some ob \<Rightarrow> Return (kill p)
         | None \<Rightarrow> Continue p)
      else Continue p)"

definition rail_stage :: "lane \<Rightarrow> player \<Rightarrow> player flow" where
  "rail_stage la p =
     (if l_type la = LANE_RAIL \<and> train_active la then
        (let train_w = real_of_int (TILE * 16)
         in if train_x la \<le> x_px p \<and> x_px p \<le> train_x la + train_w then Return (kill p)
            else Continue p)
      else Continue p)"

text \<open>
  \<^verbatim>\<open>rect_from_tile(col, row, cam_y).top\<close>. \<^verbatim>\<open>pygame.Rect\<close> is library code: it
  stores integers and cuts a float coordinate towards zero.
\<close>

definition rect_top :: "int \<Rightarrow> int \<Rightarrow> real \<Rightarrow> int" where
  "rect_top c r cam_y =
     (let y = real_of_int (SCREEN_H - TILE) - (real_of_int (r * TILE) - cam_y)
      in if y < 0 then \<lceil>y\<rceil> else \<lfloor>y\<rfloor>)"

definition fall_behind_stage :: "real \<Rightarrow> player \<Rightarrow> player" where
  "fall_behind_stage cam_y p =
     (if rect_top (p_col p) (p_row p) cam_y > SCREEN_H then kill p else p)"

definition update_on_lane :: "real \<Rightarrow> lane \<Rightarrow> real \<Rightarrow> player \<Rightarrow> player" where
  "update_on_lane dt la cam_y p =
     (case river_stage dt la p of
        Return p' \<Rightarrow> p'
      | Continue p1 \<Rightarrow>
          (case road_stage la p1 of
             Return p' \<Rightarrow> p'
           | Continue p2 \<Rightarrow>
               (case rail_stage la p2 of
                  Return p' \<Rightarrow> p'
                | Continue p3 \<Rightarrow> fall_behind_stage cam_y p3)))"

definition Player_update :: "real \<Rightarrow> world \<Rightarrow> real \<Rightarrow> player \<Rightarrow> player \<times> world" where
  "Player_update dt wd cam_y p =
     (if dead p then (p, wd)
      else
        (let (la, wd') = lane_at (p_row p) wd;
             p1 = (if log_dip_t p > 0 then p\<lparr>log_dip_t := max 0 (log_dip_t p - dt)\<rparr> else p)
         in (update_on_lane dt la cam_y p1, wd')))"

section \<open>Concrete inputs\<close>

text \<open>Inputs at which the theorems below are instantiated: a random source whose tape
  holds zeros only, and a lane of a given row and type with the fields the constructor
  sets before it looks at the type (for that random source).\<close>

definition env0 :: env where
  "env0 = \<lparr>tape = (\<lambda>i. 0), fresh = 0\<rparr>"

definition blank_lane :: "int \<Rightarrow> lane_type \<Rightarrow> lane" where
  "blank_lane row ty =
     \<lparr>l_row = row, l_type = ty, obstacles = [], blocked_cols = {},
      direction = -1, spawn_timer = 0, base_spawn_interval = 1, base_speed = 0,
      train_timer = 6, train_warning = 0, train_active = False, train_x = 0,
      train_dir = -1\<rparr>"

text \<open>A world that holds one ground lane, on row 2, with no blocked column.\<close>

definition world0 :: world where
  "world0 = \<lparr>w_rng = env0, lanes = [2 \<mapsto> blank_lane 2 LANE_GRASS], max_generated_row = 2\<rparr>"

text \<open>The same world with a tree on column 5 of row 2, the cell ahead of the starting cell.\<close>

definition tree_world :: world where
  "tree_world =
     \<lparr>w_rng = env0,
      lanes = [2 \<mapsto> (blank_lane 2 LANE_GRASS)\<lparr>blocked_cols := {5}\<rparr>],
      max_generated_row = 2\<rparr>"

text \<open>
  A river lane on row 20 with one log (width two tiles, base speed 100), a world that
  holds it, and a player riding that log with score 20 (difficulty 1).
\<close>

definition log_at :: "real \<Rightarrow> int \<Rightarrow> obstacle" where
  "log_at xpos d = \<lparr>oid = 0, ob_x = xpos, ob_w = 96, ob_base_speed = 100, ob_dir = d\<rparr>"

definition river_lane :: "real \<Rightarrow> int \<Rightarrow> lane" where
  "river_lane xpos d =
     (blank_lane 20 LANE_RIVER)\<lparr>obstacles := [log_at xpos d], direction := d, base_speed := 100\<rparr>"

definition river_world :: "real \<Rightarrow> int \<Rightarrow> world" where
  "river_world xpos d =
     \<lparr>w_rng = env0, lanes = [20 \<mapsto> river_lane xpos d], max_generated_row = 61\<rparr>"

definition rider :: "int \<Rightarrow> real \<Rightarrow> player" where
  "rider c px =
     \<lparr>p_col = c, p_row = 20, x_px = px, dead = False, max_row = 20, was_on_log = True,
      log_under = Some 0, log_dip_t = 0\<rparr>"

text \<open>An idle rail lane on row 30 with the given countdown and warning timers; its train
  direction is \<open>-1\<close>.\<close>

definition rail_lane :: "real \<Rightarrow> real \<Rightarrow> lane" where
  "rail_lane t wn = (blank_lane 30 LANE_RAIL)\<lparr>train_timer := t, train_warning := wn\<rparr>"

text \<open>
  A world whose highest generated row, 61, is a ground lane with trees on columns 0 and 1;
  row 62 has not been generated.
\<close>

definition world61 :: world where
  "world61 =
     \<lparr>w_rng = env0,
      lanes = [61 \<mapsto> (blank_lane 61 LANE_GRASS)\<lparr>blocked_cols := {0, 1}\<rparr>],
      max_generated_row = 61\<rparr>"

text \<open>A road lane on row 8, travelling right at base speed 120, with two cars that
  overlap: one at 100 and one at 120, each one tile wide.\<close>

definition car :: "nat \<Rightarrow> real \<Rightarrow> obstacle" where
  "car i xpos = \<lparr>oid = i, ob_x = xpos, ob_w = 48, ob_base_speed = 120, ob_dir = 1\<rparr>"

definition road2 :: lane where
  "road2 = (blank_lane 8 LANE_ROAD)\<lparr>obstacles := [car 0 100, car 1 120], direction := 1,
                                     base_speed := 120\<rparr>"

section \<open>Reachable worlds\<close>

text \<open>
  The worlds a session can reach: built by \<^verbatim>\<open>World.__init__\<close>, then changed by
  \<^verbatim>\<open>World.update\<close> with any camera row and by \<^verbatim>\<open>lane_at\<close> on a row at most one past
  the highest generated row (the player moves one row at a time); the world in the middle
  of an update, after \<^verbatim>\<open>_generate_up_to\<close> has run, is among them. The first argument
  records the prune line: the largest \<open>camera_row - 30\<close> an update was given, or 0.
\<close>

inductive reachable :: "int \<Rightarrow> world \<Rightarrow> bool" where
  init: "reachable 0 (World_init g)"
| update: "reachable lo wd \<Longrightarrow> World_update dt camera_row diff wd = Inr wd' \<Longrightarrow>
           reachable (max lo (camera_row - 30)) wd'"
| lookup: "reachable lo wd \<Longrightarrow> row \<le> max_generated_row wd + 1 \<Longrightarrow>
           reachable lo (snd (lane_at row wd))"
| ahead: "reachable lo wd \<Longrightarrow> reachable lo (generate_up_to target_row wd)"

text \<open>
  Two properties of a world: no row above the highest generated row is present, and every
  row from \<open>lo\<close> up to the highest generated row is present.
\<close>

definition rows_bounded :: "world \<Rightarrow> bool" where
  "rows_bounded wd = (\<forall>k. lanes wd k \<noteq> None \<longrightarrow> k \<le> max_generated_row wd)"

definition rows_present :: "int \<Rightarrow> world \<Rightarrow> bool" where
  "rows_present lo wd = (\<forall>r. lo \<le> r \<and> r \<le> max_generated_row wd \<longrightarrow> lanes wd r \<noteq> None)"

section \<open>Idle periods of a rail lane\<close>

text \<open>
  What holds of an idle rail lane between ticks of the same length \<open>dt\<close>: either the
  countdown is still above the warning threshold and no warning runs, or the countdown
  is at or below the threshold and the warning has at most one tick less to run than the
  countdown. A lane whose countdown has just been rolled (above the threshold, warning
  timer zero) is in the first case.
\<close>

definition warning_running :: "real \<Rightarrow> lane \<Rightarrow> bool" where
  "warning_running dt l =
     ((TRAIN_WARNING_TIME < train_timer l \<and> train_warning l = 0)
      \<or> (train_timer l \<le> TRAIN_WARNING_TIME \<and> train_timer l - dt \<le> train_warning l))"

text \<open>
  The number of ticks, among the next \<open>n\<close> calls of \<^verbatim>\<open>Lane.update\<close> with the same
  \<open>dt\<close> and before the train spawns, after which the warning timer is higher than
  before the tick: the ticks in which the warning is seen to be armed.
\<close>

fun armings :: "nat \<Rightarrow> real \<Rightarrow> real \<Rightarrow> lane \<Rightarrow> env \<Rightarrow> nat" where
  "armings 0 dt diff l g = 0"
| "armings (Suc n) dt diff l g =
     (if train_active l then 0
      else (case Lane_update dt diff l g of
              Inl e \<Rightarrow> 0
            | Inr (l', g') \<Rightarrow>
                (if \<not> train_active l' \<and> train_warning l < train_warning l' then 1 else 0)
                + armings n dt diff l' g'))"

section \<open>Spacing of obstacles\<close>

text \<open>
  An obstacle list is separated when every obstacle ends at least \<open>MIN_GAP\<close> before each
  obstacle behind it in the list begins: the list is in the order of position and no
  two obstacles come within the gap of each other. \<open>chained prev xs\<close> is the same for
  neighbours only, \<open>prev\<close> being the obstacle before the list.
\<close>

fun separated :: "obstacle list \<Rightarrow> bool" where
  "separated [] = True"
| "separated (a # rest) =
     ((\<forall>b\<in>set rest. ob_x a + ob_w a + MIN_GAP \<le> ob_x b) \<and> separated rest)"

fun chained :: "obstacle \<Rightarrow> obstacle list \<Rightarrow> bool" where
  "chained prev [] = True"
| "chained prev (cur # rest) =
     (ob_x prev + ob_w prev + MIN_GAP \<le> ob_x cur \<and> chained cur rest)"

text \<open>
  What \<^verbatim>\<open>spawn_obstacle\<close> establishes for every obstacle of a lane: it has the lane's
  direction and base speed, and it is an object of its own, allocated before the next
  one.
\<close>

definition uniform_lane :: "lane \<Rightarrow> env \<Rightarrow> bool" where
  "uniform_lane l g =
     ((\<forall>ob\<in>set (obstacles l).
          ob_dir ob = direction l \<and> ob_base_speed ob = base_speed l \<and> oid ob < fresh g)
      \<and> distinct (map oid (obstacles l)))"

text \<open>What one call of \<^verbatim>\<open>spawn_obstacle\<close> can do to a lane: nothing, or append one new
  obstacle of non-negative width with the lane's direction and speed.\<close>

definition spawned :: "lane \<Rightarrow> env \<Rightarrow> lane \<Rightarrow> env \<Rightarrow> bool" where
  "spawned l g l2 g2 =
     (l_type l2 = l_type l \<and> direction l2 = direction l \<and> base_speed l2 = base_speed l
      \<and> ((obstacles l2 = obstacles l \<and> fresh g2 = fresh g)
         \<or> (\<exists>ob. obstacles l2 = obstacles l @ [ob] \<and> oid ob = fresh g \<and> 0 \<le> ob_w ob
                 \<and> ob_dir ob = direction l \<and> ob_base_speed ob = base_speed l
                 \<and> fresh g2 = Suc (fresh g))))"

section \<open>The difficulty curve\<close>

text \<open>
  Claim C2. For every integer score the source's \<^const>\<open>difficulty\<close> is the piecewise
  function of the specification: \<open>0.60\<close> up to score 0, the line from \<open>0.60\<close> to
  \<open>1.00\<close> on scores below 20, the line from \<open>1.00\<close> to \<open>1.45\<close> on scores below 80,
  and \<open>1.45\<close> from 80 on. In particular the difficulty at score 50 is \<open>1.225\<close>.
\<close>

theorem difficulty_piecewise:
  "(\<forall>s. difficulty s = difficulty_spec s) \<and> difficulty 50 = 1.225"
  by (simp add: difficulty_def difficulty_spec_def field_simps)

lemma difficulty_mono: "s1 \<le> s2 \<Longrightarrow> difficulty s1 \<le> difficulty s2"
  by (auto simp: difficulty_def field_simps)

lemma difficulty_bounds: "0.60 \<le> difficulty s \<and> difficulty s \<le> 1.45"
  by (auto simp: difficulty_def field_simps)

text \<open>
  Claim C9. The difficulty never decreases when the score grows, it stays between
  \<open>0.60\<close> and \<open>1.45\<close>, it is \<open>0.60\<close> at score 0 and \<open>1.00\<close> at score 20, and it is
  \<open>1.45\<close> for every score from 80 on.
\<close>

theorem difficulty_monotone_bounded:
  "(\<forall>s1 s2. s1 \<le> s2 \<longrightarrow> difficulty s1 \<le> difficulty s2)
   \<and> (\<forall>s. 0.60 \<le> difficulty s \<and> difficulty s \<le> 1.45)
   \<and> difficulty 0 = 0.60 \<and> difficulty 20 = 1.00
   \<and> (\<forall>s. 80 \<le> s \<longrightarrow> difficulty s = 1.45)"
  using difficulty_mono difficulty_bounds by (auto simp: difficulty_def)

theorem difficulty_monotone_bounded_witness:
  "(10::int) \<le> 30 \<and> difficulty 10 \<le> difficulty 30
   \<and> (80::int) \<le> 100 \<and> difficulty 100 = 1.45"
  using difficulty_monotone_bounded by simp

section \<open>Ground lanes beyond the safe zone\<close>

lemma block_loop_card:
  "finite b \<Longrightarrow> card b \<le> 8 \<Longrightarrow>
     finite (block_loop t cs b) \<and> card (block_loop t cs b) \<le> 8"
proof (induction cs arbitrary: b)
  case Nil
  then show ?case by simp
next
  case (Cons c cs)
  show ?case
  proof (cases "int (card b) \<ge> t \<or> GRID_W - (int (card b) + 1) < 3")
    case True
    with Cons.prems show ?thesis by auto
  next
    case False
    then have "card b + 1 \<le> 8" by (simp add: GRID_W_def)
    then have "card (insert c b) \<le> 8"
      using Cons.prems(1) by (simp add: card_insert_if)
    moreover have "finite (insert c b)" using Cons.prems(1) by simp
    ultimately have
      "finite (block_loop t cs (insert c b)) \<and> card (block_loop t cs (insert c b)) \<le> 8"
      by (rule Cons.IH[rotated])
    with False show ?thesis by simp
  qed
qed

lemma open_after_block:
  assumes "finite b" "card b \<le> 8"
  shows "3 \<le> card ({0..<GRID_W} - (b - c))"
proof -
  have f: "finite (b - c)" using assms by simp
  have "card (b - c) \<le> 8" using assms card_mono[of b "b - c"] by auto
  moreover have "card {0..<GRID_W} - card (b - c) \<le> card ({0..<GRID_W} - (b - c))"
    using f by (rule diff_card_le_card_Diff)
  moreover have "card {0..<GRID_W} = 11" by (simp add: GRID_W_def)
  ultimately show ?thesis by linarith
qed

text \<open>
  Claim C3. A ground lane generated beyond the safe zone (row at least
  \<open>START_SAFE_ROWS\<close>) has at least three open columns, and no column of its corridor is
  blocked, whatever the random source yields and whatever the previous row's open-column
  set is (\<open>None\<close> included). The lane starts with no blocked column, as the constructor
  leaves it when it calls \<^verbatim>\<open>_init_grass\<close>.
\<close>

theorem grass_lane_open_and_corridor:
  assumes "START_SAFE_ROWS \<le> l_row l" and "l_type l = LANE_GRASS" and "blocked_cols l = {}"
    and "init_grass prev_open_cols l g = (l', g')"
  shows "3 \<le> card (open_cols l') \<and> grass_corridor prev_open_cols g \<inter> blocked_cols l' = {}"
  using assms block_loop_card[of "{}"]
  by (auto simp: init_grass_def grass_corridor_def open_cols_def open_after_block
           split: prod.splits)

theorem grass_lane_open_and_corridor_witness:
  "START_SAFE_ROWS \<le> l_row (blank_lane 6 LANE_GRASS)
   \<and> l_type (blank_lane 6 LANE_GRASS) = LANE_GRASS
   \<and> blocked_cols (blank_lane 6 LANE_GRASS) = {}
   \<and> 3 \<le> card (open_cols (fst (init_grass None (blank_lane 6 LANE_GRASS) env0)))
   \<and> grass_corridor None env0
       \<inter> blocked_cols (fst (init_grass None (blank_lane 6 LANE_GRASS) env0)) = {}"
proof -
  have h1: "START_SAFE_ROWS \<le> l_row (blank_lane 6 LANE_GRASS)"
    by (simp add: blank_lane_def START_SAFE_ROWS_def)
  have h2: "l_type (blank_lane 6 LANE_GRASS) = LANE_GRASS" by (simp add: blank_lane_def)
  have h3: "blocked_cols (blank_lane 6 LANE_GRASS) = {}" by (simp add: blank_lane_def)
  have h4: "init_grass None (blank_lane 6 LANE_GRASS) env0 =
              (fst (init_grass None (blank_lane 6 LANE_GRASS) env0),
               snd (init_grass None (blank_lane 6 LANE_GRASS) env0))" by simp
  from grass_lane_open_and_corridor[OF h1 h2 h3 h4] h1 h2 h3 show ?thesis by blast
qed

text \<open>The constructor calls \<^verbatim>\<open>_init_grass\<close> on a lane of the given row, of ground type
  and without blocked columns, so every ground lane it builds beyond the safe zone has at
  least three open columns.\<close>

lemma Lane_init_grass_open:
  assumes "START_SAFE_ROWS \<le> row"
  shows "l_type (fst (Lane_init row LANE_GRASS prev_open_cols g)) = LANE_GRASS
         \<and> 3 \<le> card (open_cols (fst (Lane_init row LANE_GRASS prev_open_cols g)))"
proof -
  obtain l0 g3 where
    i: "Lane_init row LANE_GRASS prev_open_cols g = init_grass prev_open_cols l0 g3"
    and r: "l_row l0 = row" and t: "l_type l0 = LANE_GRASS" and b: "blocked_cols l0 = {}"
    by (simp add: Lane_init_def Let_def case_prod_beta)
  obtain cands t where
    "fst (init_grass prev_open_cols l0 g3) =
       l0\<lparr>blocked_cols := block_loop t cands {} - grass_corridor prev_open_cols g3\<rparr>"
    using assms r b by (simp add: init_grass_def grass_corridor_def case_prod_beta)
  then show ?thesis
    using block_loop_card[of "{}" t cands] t
    by (simp add: i open_cols_def open_after_block)
qed

section \<open>Move requests\<close>

lemma ensure_lane_present: "lanes (ensure_lane row ft prev wd) row \<noteq> None"
  by (auto simp: ensure_lane_def Let_def split: prod.splits option.splits)

lemma lane_at_lookup: "lane_at row wd = (la, wd') \<Longrightarrow> lanes wd' row = Some la"
  using ensure_lane_present[of row None None wd]
  by (auto simp: lane_at_def Let_def)

lemma lane_at_existing: "lanes wd row = Some l0 \<Longrightarrow> lane_at row wd = (l0, wd)"
  by (simp add: lane_at_def ensure_lane_def)

text \<open>
  Claim C4. A move request of an alive player by \<open>(dcol, drow)\<close>, where \<open>la\<close> is the
  lane \<^verbatim>\<open>lane_at\<close> returns for the target row in the world as it is before the move
  (the lane already there when the row exists) and \<open>wd1\<close> the world it leaves. When the
  target column is outside \<open>0..GRID_W-1\<close> or the target row is negative, the player
  and the world stay as they are. Otherwise, when \<open>la\<close> is a ground lane whose target
  column is blocked, the player stays as it is (every field: column, row, continuous x,
  score). In every other case column and row are the target's, the continuous x is the
  centre of the new column, the score is the maximum of the old score and the new row,
  and nothing else of the player changes.
\<close>

theorem try_move_behaviour:
  assumes "\<not> dead p" and "lane_at (p_row p + drow) wd = (la, wd1)"
  shows "try_move dcol drow wd p =
     (let new_col = p_col p + dcol; new_row = p_row p + drow in
      if new_col < 0 \<or> GRID_W \<le> new_col \<or> new_row < 0 then (p, wd)
      else if l_type la = LANE_GRASS \<and> new_col \<in> blocked_cols la then (p, wd1)
      else (p\<lparr>p_col := new_col, p_row := new_row,
              max_row := max (max_row p) new_row,
              x_px := real_of_int (new_col * TILE) + real_of_int TILE / 2\<rparr>, wd1))
     \<and> (\<forall>l0. lanes wd (p_row p + drow) = Some l0 \<longrightarrow> la = l0 \<and> wd1 = wd)"
proof -
  have "la = l0 \<and> wd1 = wd" if "lanes wd (p_row p + drow) = Some l0" for l0
    using lane_at_existing[OF that] assms(2) by simp
  then show ?thesis
    using assms
    by (auto simp: try_move_def Let_def is_blocked_def snap_x_to_col_def)
qed

theorem try_move_behaviour_witness:
  "\<not> dead Player_init
   \<and> lane_at (p_row Player_init + 1) world0 = (blank_lane 2 LANE_GRASS, world0)
   \<and> try_move 0 1 world0 Player_init =
       (Player_init\<lparr>p_col := 5, p_row := 2, max_row := 2, x_px := 264\<rparr>, world0)
   \<and> lane_at (p_row Player_init + 1) tree_world =
       ((blank_lane 2 LANE_GRASS)\<lparr>blocked_cols := {5}\<rparr>, tree_world)
   \<and> try_move 0 1 tree_world Player_init = (Player_init, tree_world)
   \<and> try_move (- 6) 0 world0 Player_init = (Player_init, world0)"
proof -
  have h1: "\<not> dead Player_init" by (simp add: Player_init_def Let_def)
  have r: "p_row Player_init + 1 = 2" and z: "p_row Player_init + 0 = 1"
    by (simp_all add: Player_init_def Let_def)
  have a: "lane_at (p_row Player_init + 1) world0 = (blank_lane 2 LANE_GRASS, world0)"
    unfolding r by (rule lane_at_existing) (simp add: world0_def)
  have b: "lane_at (p_row Player_init + 1) tree_world =
             ((blank_lane 2 LANE_GRASS)\<lparr>blocked_cols := {5}\<rparr>, tree_world)"
    unfolding r by (rule lane_at_existing) (simp add: tree_world_def)
  have c: "lane_at (p_row Player_init + 0) world0
             = (fst (lane_at (p_row Player_init + 0) world0),
                snd (lane_at (p_row Player_init + 0) world0))" by simp
  have m1: "try_move 0 1 world0 Player_init =
       (Player_init\<lparr>p_col := 5, p_row := 2, max_row := 2, x_px := 264\<rparr>, world0)"
    using try_move_behaviour[OF h1 a, of 0]
    by (simp add: Player_init_def GRID_W_def TILE_def blank_lane_def Let_def)
  have m2: "try_move 0 1 tree_world Player_init = (Player_init, tree_world)"
    using try_move_behaviour[OF h1 b, of 0]
    by (simp add: Player_init_def GRID_W_def TILE_def blank_lane_def Let_def)
  have m3: "try_move (- 6) 0 world0 Player_init = (Player_init, world0)"
    using try_move_behaviour[OF h1 c, of "- 6"]
    by (simp add: Player_init_def GRID_W_def Let_def)
  from h1 a m1 b m2 m3 show ?thesis by (intro conjI)
qed

section \<open>Riding a log\<close>

lemma river_stage_on_log:
  assumes "l_type la = LANE_RIVER" and "find (overlaps (x_px p)) (obstacles la) = Some ob"
  shows "river_stage dt la p =
     (let x' = x_px p + real_of_int (ob_dir ob) * (ob_base_speed ob * difficulty (max_row p)) * dt;
          q = p\<lparr>log_dip_t := (if \<not> was_on_log p \<or> log_under p \<noteq> Some (oid ob)
                                then LOG_DIP_DURATION else log_dip_t p),
                 log_under := Some (oid ob), was_on_log := True, x_px := x'\<rparr>
      in if x' < 0 \<or> real_of_int SCREEN_W < x' then Return (q\<lparr>dead := True\<rparr>)
         else Continue (q\<lparr>p_col := \<lfloor>x' / real_of_int TILE\<rfloor>\<rparr>))"
  using assms by (simp add: river_stage_def Let_def kill_def sync_col_from_x_def)

text \<open>
  Claim C10. A player carried by a log (the first obstacle of the lane that contains its
  position) to the position \<open>x'\<close>: the river block of \<^verbatim>\<open>Player.update\<close> kills the
  player and returns exactly when \<open>x' < 0\<close> or \<open>x' > SCREEN_W\<close>; for
  \<open>0 \<le> x' \<le> SCREEN_W\<close> the player stays alive there and its column becomes
  \<open>floor (x' / TILE)\<close>, unclamped, so that \<open>x' = SCREEN_W\<close> gives column \<open>GRID_W\<close>.
\<close>

theorem carried_player_screen_bounds:
  assumes "l_type la = LANE_RIVER" and "find (overlaps (x_px p)) (obstacles la) = Some ob"
    and "\<not> dead p"
  shows "(let x' = x_px p
                    + real_of_int (ob_dir ob) * (ob_base_speed ob * difficulty (max_row p)) * dt
          in (if x' < 0 \<or> real_of_int SCREEN_W < x'
              then (\<exists>q. river_stage dt la p = Return q \<and> dead q \<and> x_px q = x')
              else (\<exists>q. river_stage dt la p = Continue q \<and> \<not> dead q \<and> x_px q = x'
                         \<and> p_col q = \<lfloor>x' / real_of_int TILE\<rfloor>
                         \<and> (if x' = real_of_int SCREEN_W then p_col q = GRID_W
                              else p_col q < GRID_W))))"
proof -
  have "\<lfloor>x / real_of_int TILE\<rfloor> < GRID_W" if "x < real_of_int SCREEN_W" for x :: real
    using that by (simp add: floor_less_iff SCREEN_W_def GRID_W_def TILE_def field_simps)
  moreover have "\<lfloor>real_of_int SCREEN_W / real_of_int TILE\<rfloor> = GRID_W"
    by (simp add: SCREEN_W_def GRID_W_def TILE_def)
  ultimately show ?thesis
    using assms(3) by (auto simp: river_stage_on_log[OF assms(1,2)] Let_def)
qed

lemma find_log: "px \<le> xpos + 96 \<Longrightarrow> xpos \<le> px \<Longrightarrow>
    find (overlaps px) (obstacles (river_lane xpos d)) = Some (log_at xpos d)"
  by (simp add: river_lane_def log_at_def overlaps_def)

theorem carried_player_screen_bounds_witness:
  "l_type (river_lane 480 1) = LANE_RIVER
   \<and> find (overlaps (x_px (rider 10 526))) (obstacles (river_lane 480 1)) = Some (log_at 480 1)
   \<and> \<not> dead (rider 10 526)
   \<and> (\<exists>q. river_stage (1 / 50) (river_lane 480 1) (rider 10 526) = Continue q
          \<and> \<not> dead q \<and> x_px q = 528 \<and> p_col q = 11)"
proof -
  have h1: "l_type (river_lane 480 1) = LANE_RIVER" by (simp add: river_lane_def blank_lane_def)
  have h2: "find (overlaps (x_px (rider 10 526))) (obstacles (river_lane 480 1))
              = Some (log_at 480 1)"
    by (simp add: find_log rider_def)
  have h3: "\<not> dead (rider 10 526)" by (simp add: rider_def)
  have x: "x_px (rider 10 526)
             + real_of_int (ob_dir (log_at 480 1))
               * (ob_base_speed (log_at 480 1) * difficulty (max_row (rider 10 526))) * (1 / 50)
           = 528"
    by (simp add: rider_def log_at_def difficulty_def)
  from carried_player_screen_bounds[OF h1 h2 h3, of "1 / 50"] h1 h2 h3 show ?thesis
    unfolding Let_def x by (auto simp: SCREEN_W_def GRID_W_def TILE_def)
qed

section \<open>The per-tick update on a river lane\<close>

lemma Player_update_river:
  assumes "\<not> dead p" and "lane_at (p_row p) wd = (la, wd')" and "l_type la = LANE_RIVER"
  shows "Player_update dt wd cam_y p =
     (let p1 = (if log_dip_t p > 0 then p\<lparr>log_dip_t := max 0 (log_dip_t p - dt)\<rparr> else p)
      in (case river_stage dt la p1 of
            Return q \<Rightarrow> q
          | Continue q \<Rightarrow> fall_behind_stage cam_y q), wd')"
  using assms
  by (auto simp: Player_update_def update_on_lane_def road_stage_def rail_stage_def Let_def
        river_stage_def kill_def sync_col_from_x_def split: flow.splits option.splits)

text \<open>
  Claim C5, as amended. The per-tick update of an alive player whose lane is a river
  lane: when no obstacle of the lane contains the player's position the player is dead
  afterwards; when \<open>ob\<close> is the first obstacle that contains it, the position becomes
  \<open>x' = x + dir \<times> base_speed \<times> difficulty(max_row) \<times> dt\<close>; if \<open>x'\<close> is below 0 or above
  \<open>SCREEN_W\<close> the player is dead and its column is the one it had; otherwise the column
  is \<open>floor (x' / TILE)\<close>.
\<close>

theorem river_update_behaviour:
  assumes "\<not> dead p" and "lane_at (p_row p) wd = (la, wd')" and "l_type la = LANE_RIVER"
    and "Player_update dt wd cam_y p = (p', wd'')"
  shows "(case find (overlaps (x_px p)) (obstacles la) of
            None \<Rightarrow> dead p' \<and> x_px p' = x_px p \<and> p_col p' = p_col p
          | Some ob \<Rightarrow>
              (let x' = x_px p
                        + real_of_int (ob_dir ob) * (ob_base_speed ob * difficulty (max_row p)) * dt
               in x_px p' = x'
                  \<and> (if x' < 0 \<or> real_of_int SCREEN_W < x' then dead p' \<and> p_col p' = p_col p
                      else p_col p' = \<lfloor>x' / real_of_int TILE\<rfloor>)))"
proof (cases "find (overlaps (x_px p)) (obstacles la)")
  case None
  then show ?thesis
    using assms(4) unfolding Player_update_river[OF assms(1-3)]
    by (auto simp: river_stage_def assms(3) kill_def Let_def)
next
  case (Some ob)
  let ?p1 = "if log_dip_t p > 0 then p\<lparr>log_dip_t := max 0 (log_dip_t p - dt)\<rparr> else p"
  have f: "find (overlaps (x_px ?p1)) (obstacles la) = Some ob" using Some by simp
  show ?thesis
    using assms(4) Some unfolding Player_update_river[OF assms(1-3)]
    by (auto simp: river_stage_on_log[OF assms(3) f] Let_def fall_behind_stage_def kill_def)
qed

lemma lane_at_river_world:
  "lane_at 20 (river_world xpos d) = (river_lane xpos d, river_world xpos d)"
  by (simp add: lane_at_def ensure_lane_def river_world_def Let_def)

theorem river_update_behaviour_witness:
  "\<not> dead (rider 0 40)
   \<and> lane_at (p_row (rider 0 40)) (river_world 0 1) = (river_lane 0 1, river_world 0 1)
   \<and> l_type (river_lane 0 1) = LANE_RIVER
   \<and> x_px (fst (Player_update (1 / 10) (river_world 0 1) 0 (rider 0 40))) = 50
   \<and> p_col (fst (Player_update (1 / 10) (river_world 0 1) 0 (rider 0 40))) = 1"
proof -
  have h1: "\<not> dead (rider 0 40)" by (simp add: rider_def)
  have h2: "lane_at (p_row (rider 0 40)) (river_world 0 1) = (river_lane 0 1, river_world 0 1)"
    by (simp add: rider_def lane_at_river_world)
  have h3: "l_type (river_lane 0 1) = LANE_RIVER" by (simp add: river_lane_def blank_lane_def)
  have h4: "Player_update (1 / 10) (river_world 0 1) 0 (rider 0 40) =
     (fst (Player_update (1 / 10) (river_world 0 1) 0 (rider 0 40)),
      snd (Player_update (1 / 10) (river_world 0 1) 0 (rider 0 40)))" by simp
  have f: "find (overlaps (x_px (rider 0 40))) (obstacles (river_lane 0 1)) = Some (log_at 0 1)"
    by (simp add: find_log rider_def)
  have x: "x_px (rider 0 40)
             + real_of_int (ob_dir (log_at 0 1))
               * (ob_base_speed (log_at 0 1) * difficulty (max_row (rider 0 40))) * (1 / 10)
           = 50"
    by (simp add: rider_def log_at_def difficulty_def)
  from river_update_behaviour[OF h1 h2 h3 h4] h1 h2 h3 show ?thesis
    unfolding f option.case Let_def x by (simp add: SCREEN_W_def GRID_W_def TILE_def)
qed

text \<open>
  The claim as it stands fails where the carried position leaves the screen: a rider at
  \<open>x = 1\<close> in column 0, carried left by 2, is dead at \<open>x = -1\<close> with column 0, which is
  not \<open>floor (-1 / TILE) = -1\<close>.
\<close>

theorem river_update_column_counterexample:
  "\<not> dead (rider 0 1)
   \<and> find (overlaps (x_px (rider 0 1))) (obstacles (river_lane (-10) (-1)))
       = Some (log_at (-10) (-1))
   \<and> x_px (fst (Player_update (1 / 50) (river_world (-10) (-1)) 0 (rider 0 1))) = - 1
   \<and> dead (fst (Player_update (1 / 50) (river_world (-10) (-1)) 0 (rider 0 1)))
   \<and> p_col (fst (Player_update (1 / 50) (river_world (-10) (-1)) 0 (rider 0 1))) = 0
   \<and> \<lfloor>x_px (fst (Player_update (1 / 50) (river_world (-10) (-1)) 0 (rider 0 1)))
        / real_of_int TILE\<rfloor> = - 1"
proof -
  have h1: "\<not> dead (rider 0 1)" by (simp add: rider_def)
  have h2: "lane_at (p_row (rider 0 1)) (river_world (-10) (-1))
              = (river_lane (-10) (-1), river_world (-10) (-1))"
    by (simp add: rider_def lane_at_river_world)
  have h3: "l_type (river_lane (-10) (-1)) = LANE_RIVER"
    by (simp add: river_lane_def blank_lane_def)
  have f: "find (overlaps (x_px (rider 0 1))) (obstacles (river_lane (-10) (-1)))
             = Some (log_at (-10) (-1))"
    by (simp add: find_log rider_def)
  have f': "find (overlaps 1) (obstacles (river_lane (-10) (-1))) = Some (log_at (-10) (-1))"
    by (simp add: find_log)
  have r: "rider 0 1 = \<lparr>p_col = 0, p_row = 20, x_px = 1, dead = False, max_row = 20,
             was_on_log = True, log_under = Some 0, log_dip_t = 0\<rparr>" by (simp add: rider_def)
  have u: "fst (Player_update (1 / 50) (river_world (-10) (-1)) 0 (rider 0 1))
             = (rider 0 1)\<lparr>x_px := - 1, dead := True\<rparr>"
    unfolding Player_update_river[OF h1 h2 h3]
    by (simp add: r river_stage_def h3 f' log_at_def difficulty_def kill_def Let_def
          SCREEN_W_def GRID_W_def TILE_def)
  show ?thesis unfolding u using f by (simp add: rider_def TILE_def)
qed

section \<open>The idle period of a rail lane\<close>

lemma Lane_update_rail_idle:
  assumes "l_type l = LANE_RAIL" and "\<not> train_active l"
  shows "Lane_update dt diff l g =
           Inr (warning_tick dt (train_idle_tick dt (update_move_cull dt diff l)), g)"
  using assms
  by (simp add: Lane_update_def update_spawn_def update_train_def update_move_cull_def Let_def)

text \<open>One tick of an idle rail lane, field by field.\<close>

lemma rail_idle_tick_fields:
  assumes "l_type l = LANE_RAIL" and "\<not> train_active l"
  shows "\<exists>l'. Lane_update dt diff l g = Inr (l', g)
     \<and> l_type l' = LANE_RAIL
     \<and> train_timer l' = train_timer l - dt
     \<and> train_dir l' = train_dir l
     \<and> (if train_timer l - dt \<le> 0 then
           train_active l' \<and> train_warning l' = 0
           \<and> (train_dir l \<noteq> 1 \<longrightarrow>
                 train_x l' = real_of_int SCREEN_W + 12 * real_of_int TILE
                 \<and> real_of_int SCREEN_W < train_x l')
         else
           \<not> train_active l' \<and> train_x l' = train_x l
           \<and> (if train_timer l - dt \<le> TRAIN_WARNING_TIME \<and> train_warning l \<le> 0 then
                 train_warning l' = max 0 (TRAIN_WARNING_TIME - dt)
               else if 0 < train_warning l then
                 train_warning l' = max 0 (train_warning l - dt)
               else train_warning l' = train_warning l))"
  using assms(1,2) unfolding Lane_update_rail_idle[OF assms]
  by (auto simp: warning_tick_def train_idle_tick_def update_move_cull_def spawn_train_def
        Let_def TRAIN_WARNING_TIME_def TILE_def max_def)

text \<open>With ticks of the same length the warning covers the rest of the countdown: a tick
  that leaves the lane idle keeps \<^const>\<open>warning_running\<close>, and the warning timer goes up
  only in the tick that takes the countdown from above the threshold to it.\<close>

lemma idle_tick_keeps_warning:
  assumes "l_type l = LANE_RAIL" and "\<not> train_active l" and "0 < dt"
    and "warning_running dt l" and "Lane_update dt diff l g = Inr (l', g')"
    and "\<not> train_active l'"
  shows "l_type l' = LANE_RAIL \<and> g' = g \<and> warning_running dt l'
         \<and> train_timer l' = train_timer l - dt
         \<and> (train_warning l < train_warning l' \<longrightarrow>
               TRAIN_WARNING_TIME < train_timer l \<and> train_timer l' \<le> TRAIN_WARNING_TIME)"
proof -
  from rail_idle_tick_fields[OF assms(1,2), of dt diff g] assms(5)
  have f: "l_type l' = LANE_RAIL" "g' = g" "train_timer l' = train_timer l - dt"
    and c: "if train_timer l - dt \<le> 0 then train_active l'
            else (if train_timer l - dt \<le> TRAIN_WARNING_TIME \<and> train_warning l \<le> 0 then
                    train_warning l' = max 0 (TRAIN_WARNING_TIME - dt)
                  else if 0 < train_warning l then
                    train_warning l' = max 0 (train_warning l - dt)
                  else train_warning l' = train_warning l)"
    by (auto split: if_splits)
  have pos: "0 < train_timer l - dt" using c assms(6) by (auto split: if_splits)
  from assms(4) consider
      (above) "TRAIN_WARNING_TIME < train_timer l" "train_warning l = 0"
    | (below) "train_timer l \<le> TRAIN_WARNING_TIME" "train_timer l - dt \<le> train_warning l"
    by (auto simp: warning_running_def)
  then have "warning_running dt l'
     \<and> (train_warning l < train_warning l' \<longrightarrow>
           TRAIN_WARNING_TIME < train_timer l \<and> train_timer l' \<le> TRAIN_WARNING_TIME)"
  proof cases
    case above
    show ?thesis
    proof (cases "train_timer l - dt \<le> TRAIN_WARNING_TIME")
      case True
      then have "train_warning l' = max 0 (TRAIN_WARNING_TIME - dt)"
        using c pos above by simp
      then show ?thesis using True above f(3) by (simp add: warning_running_def)
    next
      case False
      then have "train_warning l' = 0" using c pos above by simp
      then show ?thesis using False above f(3) by (simp add: warning_running_def)
    qed
  next
    case below
    have w: "0 < train_warning l" using below pos by linarith
    then have "train_warning l' = max 0 (train_warning l - dt)" using c pos by simp
    then show ?thesis
      using below w assms(3) f(3) by (auto simp: warning_running_def max_def)
  qed
  with f show ?thesis by simp
qed

lemma armings_active: "train_active l \<Longrightarrow> armings n dt diff l g = 0"
  by (cases n) simp_all

lemma armings_below:
  assumes "0 < dt"
  shows "l_type l = LANE_RAIL \<Longrightarrow> warning_running dt l \<Longrightarrow>
         train_timer l \<le> TRAIN_WARNING_TIME \<Longrightarrow> armings n dt diff l g = 0"
proof (induction n arbitrary: l)
  case 0
  then show ?case by simp
next
  case (Suc n)
  show ?case
  proof (cases "train_active l")
    case True
    then show ?thesis by simp
  next
    case False
    from rail_idle_tick_fields[OF Suc.prems(1) False, of dt diff g] obtain l' where
      u: "Lane_update dt diff l g = Inr (l', g)" by blast
    show ?thesis
    proof (cases "train_active l'")
      case True
      then show ?thesis using False u by (simp add: armings_active)
    next
      case idle: False
      from idle_tick_keeps_warning[OF Suc.prems(1) False assms Suc.prems(2) u idle]
      have k: "l_type l' = LANE_RAIL" "warning_running dt l'"
        "train_timer l' = train_timer l - dt"
        "\<not> train_warning l < train_warning l'"
        using Suc.prems(3) by auto
      have "train_timer l' \<le> TRAIN_WARNING_TIME" using k(3) Suc.prems(3) assms by simp
      then have "armings n dt diff l' g = 0" using Suc.IH k(1,2) by blast
      then show ?thesis using False u k(4) by simp
    qed
  qed
qed

lemma armings_at_most_once:
  assumes "0 < dt"
  shows "l_type l = LANE_RAIL \<Longrightarrow> warning_running dt l \<Longrightarrow> armings n dt diff l g \<le> 1"
proof (induction n arbitrary: l)
  case 0
  then show ?case by simp
next
  case (Suc n)
  show ?case
  proof (cases "train_active l")
    case True
    then show ?thesis by simp
  next
    case False
    from rail_idle_tick_fields[OF Suc.prems(1) False, of dt diff g] obtain l' where
      u: "Lane_update dt diff l g = Inr (l', g)" by blast
    show ?thesis
    proof (cases "train_active l'")
      case True
      then show ?thesis using False u by (simp add: armings_active)
    next
      case idle: False
      from idle_tick_keeps_warning[OF Suc.prems(1) False assms Suc.prems(2) u idle]
      have k: "l_type l' = LANE_RAIL" "warning_running dt l'"
        and up: "train_warning l < train_warning l' \<longrightarrow> train_timer l' \<le> TRAIN_WARNING_TIME"
        by auto
      show ?thesis
      proof (cases "train_warning l < train_warning l'")
        case True
        then have "armings n dt diff l' g = 0"
          using up armings_below[OF assms k(1,2)] by blast
        then show ?thesis using False u by simp
      next
        case no: False
        have "armings n dt diff l' g \<le> 1" using Suc.IH k by blast
        then show ?thesis using False u no by simp
      qed
    qed
  qed
qed

text \<open>
  Claim C6, as amended. One tick of an idle rail lane always returns, leaves the random
  source alone and the lane a rail lane. The countdown decreases by \<open>dt\<close>. When the new
  countdown is at or below zero the lane is active afterwards with the warning timer at
  zero and the train direction unchanged; for a train direction other than \<open>1\<close> the
  train is at \<open>SCREEN_W + 12 \<times> TILE\<close>, beyond the right edge of the screen (nothing is
  stated on the position for direction \<open>1\<close>). When the new countdown is positive the
  lane stays idle and the warning timer is armed to \<open>TRAIN_WARNING_TIME\<close> (and
  decremented by \<open>dt\<close> in the same tick) exactly if the new countdown is at or below
  \<open>TRAIN_WARNING_TIME\<close> and the warning timer was not positive; a warning timer that is
  still positive only runs down (by \<open>dt\<close>, not below zero). With ticks of one and the
  same positive length, starting from \<^const>\<open>warning_running\<close> (as after a roll of the
  countdown), a tick that leaves the lane idle keeps that condition, and over any number
  of such ticks the warning timer is seen to go up at most once before the train
  spawns, and never once the countdown is at or below the threshold.
\<close>

theorem rail_idle_tick:
  assumes "l_type l = LANE_RAIL" and "\<not> train_active l"
  shows "\<exists>l'. Lane_update dt diff l g = Inr (l', g)
     \<and> l_type l' = LANE_RAIL
     \<and> train_timer l' = train_timer l - dt
     \<and> train_dir l' = train_dir l
     \<and> (if train_timer l - dt \<le> 0 then
           train_active l' \<and> train_warning l' = 0
           \<and> (train_dir l \<noteq> 1 \<longrightarrow>
                 train_x l' = real_of_int SCREEN_W + 12 * real_of_int TILE
                 \<and> real_of_int SCREEN_W < train_x l')
         else
           \<not> train_active l' \<and> train_x l' = train_x l
           \<and> (if train_timer l - dt \<le> TRAIN_WARNING_TIME \<and> train_warning l \<le> 0 then
                 train_warning l' = max 0 (TRAIN_WARNING_TIME - dt)
               else if 0 < train_warning l then
                 train_warning l' = max 0 (train_warning l - dt)
               else train_warning l' = train_warning l))
     \<and> (0 < dt \<and> warning_running dt l \<longrightarrow>
           (\<not> train_active l' \<longrightarrow> warning_running dt l')
           \<and> (\<forall>n. armings n dt diff l g \<le> 1)
           \<and> (train_timer l \<le> TRAIN_WARNING_TIME \<longrightarrow> (\<forall>n. armings n dt diff l g = 0)))"
proof -
  from rail_idle_tick_fields[OF assms, of dt diff g] obtain l' where
    u: "Lane_update dt diff l g = Inr (l', g)"
    and f: "l_type l' = LANE_RAIL \<and> train_timer l' = train_timer l - dt
     \<and> train_dir l' = train_dir l
     \<and> (if train_timer l - dt \<le> 0 then
           train_active l' \<and> train_warning l' = 0
           \<and> (train_dir l \<noteq> 1 \<longrightarrow>
                 train_x l' = real_of_int SCREEN_W + 12 * real_of_int TILE
                 \<and> real_of_int SCREEN_W < train_x l')
         else
           \<not> train_active l' \<and> train_x l' = train_x l
           \<and> (if train_timer l - dt \<le> TRAIN_WARNING_TIME \<and> train_warning l \<le> 0 then
                 train_warning l' = max 0 (TRAIN_WARNING_TIME - dt)
               else if 0 < train_warning l then
                 train_warning l' = max 0 (train_warning l - dt)
               else train_warning l' = train_warning l))"
    by blast
  have "(\<not> train_active l' \<longrightarrow> warning_running dt l')
        \<and> (\<forall>n. armings n dt diff l g \<le> 1)
        \<and> (train_timer l \<le> TRAIN_WARNING_TIME \<longrightarrow> (\<forall>n. armings n dt diff l g = 0))"
    if h: "0 < dt \<and> warning_running dt l"
  proof -
    have d: "0 < dt" and w: "warning_running dt l" using h by simp_all
    have "warning_running dt l'" if "\<not> train_active l'"
      using idle_tick_keeps_warning[OF assms d w u that] by simp
    moreover have "armings n dt diff l g \<le> 1" for n
      using armings_at_most_once[OF d assms(1) w] .
    moreover have "armings n dt diff l g = 0" if "train_timer l \<le> TRAIN_WARNING_TIME" for n
      using armings_below[OF d assms(1) w that] .
    ultimately show ?thesis by blast
  qed
  with u f show ?thesis by blast
qed

lemma rail_lane_tick:
  "0 < t - dt \<Longrightarrow>
   Lane_update dt diff (rail_lane t wn) env0 =
     Inr (rail_lane (t - dt)
            (let w1 = (if t - dt \<le> TRAIN_WARNING_TIME \<and> wn \<le> 0 then TRAIN_WARNING_TIME else wn)
             in if w1 > 0 then (if w1 - dt < 0 then 0 else w1 - dt) else w1), env0)"
  by (simp add: Lane_update_rail_idle rail_lane_def blank_lane_def warning_tick_def
        train_idle_tick_def update_move_cull_def Let_def)

theorem rail_idle_tick_witness:
  "l_type (rail_lane 2 0) = LANE_RAIL \<and> \<not> train_active (rail_lane 2 0)
   \<and> (0::real) < 1 \<and> warning_running 1 (rail_lane 2 0)
   \<and> Lane_update 1 1 (rail_lane 2 0) env0 = Inr (rail_lane 1 (1 / 10), env0)
   \<and> warning_running 1 (rail_lane 1 (1 / 10))
   \<and> armings 5 1 1 (rail_lane 2 0) env0 \<le> 1
   \<and> l_type (rail_lane (1 / 2) 0) = LANE_RAIL \<and> \<not> train_active (rail_lane (1 / 2) 0)
   \<and> train_dir (rail_lane (1 / 2) 0) \<noteq> 1
   \<and> (\<exists>l'. Lane_update 1 1 (rail_lane (1 / 2) 0) env0 = Inr (l', env0)
          \<and> train_active l' \<and> train_warning l' = 0 \<and> train_x l' = 1104)"
proof -
  have h1: "l_type (rail_lane t wn) = LANE_RAIL" for t wn
    by (simp add: rail_lane_def blank_lane_def)
  have h2: "\<not> train_active (rail_lane t wn)" for t wn
    by (simp add: rail_lane_def blank_lane_def)
  have tw: "train_timer (rail_lane t wn) = t" "train_warning (rail_lane t wn) = wn"
    "train_dir (rail_lane t wn) = - 1" for t wn
    by (simp_all add: rail_lane_def blank_lane_def)
  have d: "(0::real) < 1" by simp
  have w: "warning_running 1 (rail_lane 2 0)"
    by (simp add: warning_running_def tw TRAIN_WARNING_TIME_def)
  have e: "Lane_update 1 1 (rail_lane 2 0) env0 = Inr (rail_lane 1 (1 / 10), env0)"
    by (simp add: rail_lane_tick TRAIN_WARNING_TIME_def)
  from rail_idle_tick[where l = "rail_lane 2 0" and dt = 1 and diff = 1 and g = env0,
      OF h1 h2] d w obtain l' where
    u: "Lane_update 1 1 (rail_lane 2 0) env0 = Inr (l', env0)"
    and k: "\<not> train_active l' \<longrightarrow> warning_running 1 l'"
    and a: "\<forall>n. armings n 1 1 (rail_lane 2 0) env0 \<le> 1"
    by blast
  have l': "l' = rail_lane 1 (1 / 10)" using u e by simp
  have w': "warning_running 1 (rail_lane 1 (1 / 10))" using k h2 unfolding l' by simp
  have a5: "armings 5 1 1 (rail_lane 2 0) env0 \<le> 1" using a by blast
  have nd: "train_dir (rail_lane (1 / 2) 0) \<noteq> 1" by (simp add: tw)
  from rail_idle_tick[where l = "rail_lane (1 / 2) 0" and dt = 1 and diff = 1 and g = env0,
      OF h1 h2] nd
  have s: "\<exists>l'. Lane_update 1 1 (rail_lane (1 / 2) 0) env0 = Inr (l', env0)
          \<and> train_active l' \<and> train_warning l' = 0 \<and> train_x l' = 1104"
    by (auto simp: tw SCREEN_W_def GRID_W_def TILE_def)
  from h1 h2 d w e w' a5 nd s show ?thesis by (intro conjI) simp_all
qed

text \<open>
  The claim as it stands fails when the ticks differ in length. From a countdown of \<open>2\<close>,
  a tick of one second arms the warning (\<open>1.1\<close>, run down to \<open>0.1\<close> in the same tick);
  a tick of an eighth of a second runs it out while the countdown is still \<open>0.875\<close>; the
  next tick arms it again, and the train has not spawned.
\<close>

theorem rail_warning_rearmed_counterexample:
  "Lane_update 1 1 (rail_lane 2 0) env0 = Inr (rail_lane 1 (1 / 10), env0)
   \<and> Lane_update (1 / 8) 1 (rail_lane 1 (1 / 10)) env0 = Inr (rail_lane (7 / 8) 0, env0)
   \<and> Lane_update (1 / 8) 1 (rail_lane (7 / 8) 0) env0 = Inr (rail_lane (3 / 4) (39 / 40), env0)
   \<and> \<not> train_active (rail_lane (3 / 4) (39 / 40))"
  by (simp add: rail_lane_tick TRAIN_WARNING_TIME_def)
     (simp add: rail_lane_def blank_lane_def)

section \<open>Rows of the world\<close>

lemma choose_next_lane_type_frame:
  "choose_next_lane_type row wd = (t, wd1) \<Longrightarrow>
     lanes wd1 = lanes wd \<and> max_generated_row wd1 = max_generated_row wd"
  by (auto simp: choose_next_lane_type_def Let_def split: prod.splits)

lemma ensure_lane_other: "k \<noteq> row \<Longrightarrow> lanes (ensure_lane row ft prev wd) k = lanes wd k"
  by (auto simp: ensure_lane_def Let_def split: prod.splits option.splits
           dest: choose_next_lane_type_frame)

lemma ensure_lane_idem: "lanes wd row \<noteq> None \<Longrightarrow> ensure_lane row ft prev wd = wd"
  by (simp add: ensure_lane_def)

lemma ensure_lane_keeps:
  "lanes wd k \<noteq> None \<Longrightarrow> lanes (ensure_lane row ft prev wd) k = lanes wd k"
  by (cases "k = row") (simp_all add: ensure_lane_idem ensure_lane_other)

lemma ensure_lane_mgr:
  "max_generated_row (ensure_lane row ft prev wd) =
     (if lanes wd row \<noteq> None then max_generated_row wd else max (max_generated_row wd) row)"
  by (auto simp: ensure_lane_def Let_def split: prod.splits option.splits
           dest: choose_next_lane_type_frame)

lemma ensure_lane_bounded: "rows_bounded wd \<Longrightarrow> rows_bounded (ensure_lane row ft prev wd)"
  unfolding rows_bounded_def
proof (intro allI impI)
  fix k
  assume b: "\<forall>k. lanes wd k \<noteq> None \<longrightarrow> k \<le> max_generated_row wd"
    and p: "lanes (ensure_lane row ft prev wd) k \<noteq> None"
  show "k \<le> max_generated_row (ensure_lane row ft prev wd)"
  proof (cases "k = row")
    case True
    then show ?thesis using b by (auto simp: ensure_lane_mgr)
  next
    case False
    then have "lanes wd k \<noteq> None" using p by (simp add: ensure_lane_other)
    then have "k \<le> max_generated_row wd" using b by blast
    then show ?thesis by (auto simp: ensure_lane_mgr)
  qed
qed

lemma generate_rows_other: "k \<notin> set rs \<Longrightarrow> lanes (generate_rows rs wd) k = lanes wd k"
  by (induction rs arbitrary: wd) (auto simp: Let_def ensure_lane_other)

lemma generate_rows_keeps:
  "lanes wd k \<noteq> None \<Longrightarrow> lanes (generate_rows rs wd) k = lanes wd k"
proof (induction rs arbitrary: wd)
  case Nil
  then show ?case by simp
next
  case (Cons r rs)
  let ?wd = "ensure_lane r None
     (Some (case lanes wd (r - 1) of Some l \<Rightarrow> open_cols l | None \<Rightarrow> {0..<GRID_W})) wd"
  have "lanes ?wd k = lanes wd k" using Cons.prems by (rule ensure_lane_keeps)
  moreover from this have "lanes (generate_rows rs ?wd) k = lanes ?wd k"
    using Cons.prems Cons.IH[of ?wd] by simp
  ultimately show ?case by (simp add: Let_def)
qed

lemma generate_rows_present: "k \<in> set rs \<Longrightarrow> lanes (generate_rows rs wd) k \<noteq> None"
proof (induction rs arbitrary: wd)
  case Nil
  then show ?case by simp
next
  case (Cons r rs)
  let ?wd = "ensure_lane r None
     (Some (case lanes wd (r - 1) of Some l \<Rightarrow> open_cols l | None \<Rightarrow> {0..<GRID_W})) wd"
  show ?case
  proof (cases "k = r")
    case True
    have "lanes ?wd r \<noteq> None" by (rule ensure_lane_present)
    then have "lanes (generate_rows rs ?wd) r = lanes ?wd r" by (rule generate_rows_keeps)
    then show ?thesis using True \<open>lanes ?wd r \<noteq> None\<close> by (simp add: Let_def)
  next
    case False
    then have "k \<in> set rs" using Cons.prems by simp
    then show ?thesis using Cons.IH[of ?wd] by (simp add: Let_def)
  qed
qed

lemma generate_rows_bounded: "rows_bounded wd \<Longrightarrow> rows_bounded (generate_rows rs wd)"
  by (induction rs arbitrary: wd) (auto simp: Let_def ensure_lane_bounded)

lemma generate_rows_mgr_le:
  "\<forall>r\<in>set rs. r \<le> b \<Longrightarrow> max_generated_row wd \<le> b \<Longrightarrow>
     max_generated_row (generate_rows rs wd) \<le> b"
  by (induction rs arbitrary: wd) (auto simp: Let_def ensure_lane_mgr)

lemma generate_rows_mgr_ge: "max_generated_row wd \<le> max_generated_row (generate_rows rs wd)"
proof (induction rs arbitrary: wd)
  case Nil
  then show ?case by simp
next
  case (Cons r rs)
  let ?wd = "ensure_lane r None
     (Some (case lanes wd (r - 1) of Some l \<Rightarrow> open_cols l | None \<Rightarrow> {0..<GRID_W})) wd"
  have "max_generated_row wd \<le> max_generated_row ?wd" by (simp add: ensure_lane_mgr)
  also have "\<dots> \<le> max_generated_row (generate_rows rs ?wd)" by (rule Cons.IH)
  finally show ?case by (simp add: Let_def)
qed

lemma generate_rows_append:
  "generate_rows (xs @ ys) wd = generate_rows ys (generate_rows xs wd)"
  by (induction xs arbitrary: wd) (simp_all add: Let_def)

lemma generate_up_to_present:
  assumes "rows_present lo wd"
  shows "rows_present lo (generate_up_to t wd)"
  unfolding rows_present_def
proof (intro allI impI)
  fix r
  let ?rs = "[max_generated_row wd + 1 .. t]"
  assume r: "lo \<le> r \<and> r \<le> max_generated_row (generate_up_to t wd)"
  show "lanes (generate_up_to t wd) r \<noteq> None"
  proof (cases "r \<le> max_generated_row wd")
    case True
    then have "lanes wd r \<noteq> None" using assms r by (simp add: rows_present_def)
    then show ?thesis by (simp add: generate_up_to_def generate_rows_keeps)
  next
    case False
    have "max_generated_row (generate_rows ?rs wd) \<le> max (max_generated_row wd) t"
      by (rule generate_rows_mgr_le) auto
    then have "r \<le> t" using r False unfolding generate_up_to_def by linarith
    then have "r \<in> set ?rs" using False by simp
    then show ?thesis unfolding generate_up_to_def by (rule generate_rows_present)
  qed
qed

lemma generate_up_to_bounded: "rows_bounded wd \<Longrightarrow> rows_bounded (generate_up_to t wd)"
  by (simp add: generate_up_to_def generate_rows_bounded)

lemma generate_up_to_mgr:
  assumes "rows_bounded wd"
  shows "max_generated_row (generate_up_to t wd) = max (max_generated_row wd) t"
proof -
  let ?m = "max_generated_row wd"
  have le: "max_generated_row (generate_up_to t wd) \<le> max ?m t"
    unfolding generate_up_to_def by (rule generate_rows_mgr_le) auto
  have ge: "?m \<le> max_generated_row (generate_up_to t wd)"
    unfolding generate_up_to_def by (rule generate_rows_mgr_ge)
  show ?thesis
  proof (cases "t \<le> ?m")
    case True
    then show ?thesis using le ge by simp
  next
    case False
    then have "t \<in> set [?m + 1 .. t]" by simp
    then have "lanes (generate_up_to t wd) t \<noteq> None"
      unfolding generate_up_to_def by (rule generate_rows_present)
    moreover have "rows_bounded (generate_up_to t wd)"
      using assms by (rule generate_up_to_bounded)
    ultimately have "t \<le> max_generated_row (generate_up_to t wd)"
      by (simp add: rows_bounded_def)
    then show ?thesis using le False by simp
  qed
qed

text \<open>Generating up to \<open>t\<close> is generating up to any row \<open>s\<close> in between first and going
  on from there: the lower rows are built before the higher ones.\<close>

lemma generate_up_to_compose:
  assumes "rows_bounded wd" and "max_generated_row wd \<le> s" and "s \<le> t"
  shows "generate_up_to t wd = generate_up_to t (generate_up_to s wd)"
proof (cases "s = max_generated_row wd")
  case True
  then have "generate_up_to s wd = wd" by (simp add: generate_up_to_def)
  then show ?thesis by simp
next
  case False
  let ?m = "max_generated_row wd"
  have ms: "?m + 1 \<le> s" using False assms(2) by simp
  have sp: "[?m + 1 .. t] = [?m + 1 .. s] @ [s + 1 .. t]"
    using ms assms(3) by (rule upto_split2)
  have "max_generated_row (generate_up_to s wd) = s"
    using generate_up_to_mgr[OF assms(1), of s] assms(2) by simp
  then have "generate_up_to t (generate_up_to s wd)
               = generate_rows [s + 1 .. t] (generate_rows [?m + 1 .. s] wd)"
    by (simp add: generate_up_to_def)
  also have "\<dots> = generate_rows [?m + 1 .. t] wd"
    unfolding sp by (simp add: generate_rows_append)
  finally show ?thesis by (simp add: generate_up_to_def)
qed

text \<open>The first row built is the one right above the highest generated row, from the open
  columns of the row before it.\<close>

lemma generate_up_to_first:
  "generate_up_to (max_generated_row wd + 1) wd =
     ensure_lane (max_generated_row wd + 1) None
       (Some (case lanes wd (max_generated_row wd) of
                Some l \<Rightarrow> open_cols l
              | None \<Rightarrow> {0..<GRID_W})) wd"
proof -
  have "[max_generated_row wd + 1 .. max_generated_row wd + 1] = [max_generated_row wd + 1]"
    by simp
  then show ?thesis by (simp add: generate_up_to_def Let_def)
qed

lemma update_lanes_frame:
  "update_lanes dt diff rs wd = Inr wd' \<Longrightarrow>
     (\<forall>k. (lanes wd' k = None) = (lanes wd k = None))
     \<and> max_generated_row wd' = max_generated_row wd"
proof (induction rs arbitrary: wd)
  case Nil
  then show ?case by simp
next
  case (Cons r rs)
  show ?case
  proof (cases "lanes wd r")
    case None
    then show ?thesis using Cons by simp
  next
    case (Some l)
    then obtain l' g' where u: "Lane_update dt diff l (w_rng wd) = Inr (l', g')"
      using Cons.prems by (auto split: sum.splits)
    let ?wd = "wd\<lparr>w_rng := g', lanes := (lanes wd)(r \<mapsto> l')\<rparr>"
    have "update_lanes dt diff rs ?wd = Inr wd'" using Cons.prems Some u by simp
    from Cons.IH[OF this] show ?thesis using Some by auto
  qed
qed

lemma prune_lanes: "lanes (prune b wd) k = (if k < b then None else lanes wd k)"
  and prune_mgr: "max_generated_row (prune b wd) = max_generated_row wd"
  by (simp_all add: prune_def)

lemma World_update_rows:
  assumes "rows_present lo wd" and "rows_bounded wd"
    and "World_update dt camera_row diff wd = Inr wd'"
  shows "rows_present (max lo (camera_row - 30)) wd' \<and> rows_bounded wd'"
proof -
  let ?wd1 = "generate_up_to (camera_row + LANE_LOOKAHEAD) wd"
  obtain wd2 where u: "update_lanes dt diff
      [max 0 (camera_row - 10) .. camera_row + LANE_LOOKAHEAD] ?wd1 = Inr wd2"
    and w: "wd' = prune (camera_row - 30) wd2"
    using assms(3) by (auto simp: World_update_def Let_def split: sum.splits)
  have p1: "rows_present lo ?wd1" using assms(1) by (rule generate_up_to_present)
  have b1: "rows_bounded ?wd1" using assms(2) by (rule generate_up_to_bounded)
  note f = update_lanes_frame[OF u]
  have m: "max_generated_row wd2 = max_generated_row ?wd1" using f by simp
  have n: "(lanes wd2 k = None) = (lanes ?wd1 k = None)" for k using f by simp
  have "rows_present (max lo (camera_row - 30)) wd'"
    unfolding rows_present_def w
  proof (intro allI impI)
    fix r
    assume r: "max lo (camera_row - 30) \<le> r
               \<and> r \<le> max_generated_row (prune (camera_row - 30) wd2)"
    then have "lo \<le> r \<and> r \<le> max_generated_row ?wd1" by (simp add: prune_mgr m)
    then have "lanes ?wd1 r \<noteq> None" using p1 by (simp add: rows_present_def)
    then have "lanes wd2 r \<noteq> None" using n by simp
    then show "lanes (prune (camera_row - 30) wd2) r \<noteq> None"
      using r by (simp add: prune_lanes)
  qed
  moreover have "rows_bounded wd'"
    unfolding rows_bounded_def w
  proof (intro allI impI)
    fix k
    assume "lanes (prune (camera_row - 30) wd2) k \<noteq> None"
    then have "lanes wd2 k \<noteq> None" by (simp add: prune_lanes split: if_splits)
    then have "lanes ?wd1 k \<noteq> None" using n by simp
    then have "k \<le> max_generated_row ?wd1" using b1 by (simp add: rows_bounded_def)
    then show "k \<le> max_generated_row (prune (camera_row - 30) wd2)"
      by (simp add: prune_mgr m)
  qed
  ultimately show ?thesis ..
qed

lemma lane_at_rows:
  assumes "rows_present lo wd" and "rows_bounded wd" and "row \<le> max_generated_row wd + 1"
  shows "rows_present lo (snd (lane_at row wd)) \<and> rows_bounded (snd (lane_at row wd))"
proof -
  let ?wd = "ensure_lane row None None wd"
  have s: "snd (lane_at row wd) = ?wd" by (simp add: lane_at_def Let_def)
  have "rows_present lo ?wd"
    unfolding rows_present_def
  proof (intro allI impI)
    fix r
    assume r: "lo \<le> r \<and> r \<le> max_generated_row ?wd"
    show "lanes ?wd r \<noteq> None"
    proof (cases "r = row")
      case True
      then show ?thesis by (simp add: ensure_lane_present)
    next
      case False
      then have "r \<le> max_generated_row wd"
        using r assms(3) by (auto simp: ensure_lane_mgr split: if_splits)
      then have "lanes wd r \<noteq> None" using assms(1) r by (simp add: rows_present_def)
      then show ?thesis using False by (simp add: ensure_lane_other)
    qed
  qed
  moreover have "rows_bounded ?wd" using assms(2) by (rule ensure_lane_bounded)
  ultimately show ?thesis unfolding s ..
qed
lemma init_safe_rows_other:
  "k \<notin> set rs \<Longrightarrow> lanes (init_safe_rows rs prev wd) k = lanes wd k"
  by (induction rs arbitrary: prev wd) (auto simp: Let_def ensure_lane_other)

lemma init_safe_rows_keeps:
  "lanes wd k \<noteq> None \<Longrightarrow> lanes (init_safe_rows rs prev wd) k = lanes wd k"
proof (induction rs arbitrary: prev wd)
  case Nil
  then show ?case by simp
next
  case (Cons r rs)
  let ?wd = "ensure_lane r (Some LANE_GRASS) (Some prev) wd"
  have e: "lanes ?wd k = lanes wd k" using Cons.prems by (rule ensure_lane_keeps)
  then have "lanes (init_safe_rows rs (open_cols (the (lanes ?wd r))) ?wd) k = lanes ?wd k"
    using Cons.prems Cons.IH[where wd = ?wd] by simp
  with e show ?case by (simp add: Let_def)
qed

lemma init_safe_rows_present:
  "k \<in> set rs \<Longrightarrow> lanes (init_safe_rows rs prev wd) k \<noteq> None"
proof (induction rs arbitrary: prev wd)
  case Nil
  then show ?case by simp
next
  case (Cons r rs)
  let ?wd = "ensure_lane r (Some LANE_GRASS) (Some prev) wd"
  show ?case
  proof (cases "k = r")
    case True
    have p: "lanes ?wd r \<noteq> None" by (rule ensure_lane_present)
    then have "lanes (init_safe_rows rs (open_cols (the (lanes ?wd r))) ?wd) r = lanes ?wd r"
      by (rule init_safe_rows_keeps)
    then show ?thesis using True p by (simp add: Let_def)
  next
    case False
    then have "k \<in> set rs" using Cons.prems by simp
    then show ?thesis using Cons.IH[where wd = ?wd] by (simp add: Let_def)
  qed
qed

lemma World_init_rows:
  "rows_present 0 (World_init g) \<and> rows_bounded (World_init g)
   \<and> max_generated_row (World_init g) = START_SAFE_ROWS + LANE_LOOKAHEAD"
proof -
  let ?wd0 = "\<lparr>w_rng = g, lanes = Map.empty, max_generated_row = -1\<rparr>"
  let ?wd1 = "init_safe_rows [0 .. START_SAFE_ROWS - 1] {0..<GRID_W} ?wd0"
  let ?wd2 = "?wd1\<lparr>max_generated_row := START_SAFE_ROWS - 1\<rparr>"
  let ?t = "START_SAFE_ROWS + LANE_LOOKAHEAD"
  have w: "World_init g = generate_up_to ?t ?wd2" by (simp add: World_init_def Let_def)
  have p2: "rows_present 0 ?wd2"
    by (simp add: rows_present_def init_safe_rows_present)
  have b2: "rows_bounded ?wd2"
    unfolding rows_bounded_def
  proof (intro allI impI)
    fix k
    assume k: "lanes ?wd2 k \<noteq> None"
    have "k \<in> set [0 .. START_SAFE_ROWS - 1]"
    proof (rule ccontr)
      assume "k \<notin> set [0 .. START_SAFE_ROWS - 1]"
      then have "lanes ?wd1 k = lanes ?wd0 k" by (rule init_safe_rows_other)
      then show False using k by simp
    qed
    then show "k \<le> max_generated_row ?wd2" by simp
  qed
  have p: "rows_present 0 (World_init g)" unfolding w using p2 by (rule generate_up_to_present)
  have b: "rows_bounded (World_init g)" unfolding w using b2 by (rule generate_up_to_bounded)
  have "max_generated_row (generate_rows [max_generated_row ?wd2 + 1 .. ?t] ?wd2) \<le> ?t"
    by (rule generate_rows_mgr_le) (auto simp: START_SAFE_ROWS_def LANE_LOOKAHEAD_def)
  then have le: "max_generated_row (World_init g) \<le> ?t" by (simp add: w generate_up_to_def)
  have "?t \<in> set [max_generated_row ?wd2 + 1 .. ?t]"
    by (simp add: START_SAFE_ROWS_def LANE_LOOKAHEAD_def)
  then have "lanes (generate_rows [max_generated_row ?wd2 + 1 .. ?t] ?wd2) ?t \<noteq> None"
    by (rule generate_rows_present)
  then have "lanes (World_init g) ?t \<noteq> None" by (simp add: w generate_up_to_def)
  then have "?t \<le> max_generated_row (World_init g)" using b by (simp add: rows_bounded_def)
  with le p b show ?thesis by simp
qed

lemma update_spawn_total: "diff \<noteq> 0 \<Longrightarrow> \<exists>l' g'. update_spawn dt diff l g = Inr (l', g')"
  by (simp add: update_spawn_def Let_def case_prod_beta)

lemma finish_train_total: "diff \<noteq> 0 \<Longrightarrow> \<exists>l' g'. finish_train diff l g = Inr (l', g')"
  by (simp add: finish_train_def roll_next_train_interval_def Let_def case_prod_beta)

lemma update_train_total: "diff \<noteq> 0 \<Longrightarrow> \<exists>l' g'. update_train dt diff l g = Inr (l', g')"
proof -
  assume d: "diff \<noteq> 0"
  have "\<exists>l' g'. train_active_tick dt diff l g = Inr (l', g')"
    using finish_train_total[OF d] by (simp add: train_active_tick_def Let_def)
  then show ?thesis by (auto simp: update_train_def)
qed

lemma Lane_update_total: "diff \<noteq> 0 \<Longrightarrow> \<exists>l' g'. Lane_update dt diff l g = Inr (l', g')"
proof -
  assume d: "diff \<noteq> 0"
  obtain l1 g1 where "update_spawn dt diff (update_move_cull dt diff l) g = Inr (l1, g1)"
    using update_spawn_total[OF d] by blast
  then show ?thesis using update_train_total[OF d] by (simp add: Lane_update_def)
qed

lemma update_lanes_total: "diff \<noteq> 0 \<Longrightarrow> \<exists>wd'. update_lanes dt diff rs wd = Inr wd'"
proof (induction rs arbitrary: wd)
  case Nil
  then show ?case by simp
next
  case (Cons r rs)
  show ?case
  proof (cases "lanes wd r")
    case None
    then show ?thesis using Cons by simp
  next
    case (Some l)
    obtain l' g' where "Lane_update dt diff l (w_rng wd) = Inr (l', g')"
      using Lane_update_total[OF Cons.prems] by blast
    then show ?thesis using Some Cons.IH[OF Cons.prems] by simp
  qed
qed

lemma World_update_total: "diff \<noteq> 0 \<Longrightarrow> \<exists>wd'. World_update dt camera_row diff wd = Inr wd'"
proof -
  assume "diff \<noteq> 0"
  then obtain wd2 where "update_lanes dt diff
      [max 0 (camera_row - 10) .. camera_row + LANE_LOOKAHEAD]
      (generate_up_to (camera_row + LANE_LOOKAHEAD) wd) = Inr wd2"
    using update_lanes_total by blast
  then show ?thesis by (simp add: World_update_def Let_def)
qed

lemma World_update_pruned:
  "World_update dt camera_row diff wd = Inr wd' \<Longrightarrow>
     (\<forall>k. k < camera_row - 30 \<longrightarrow> lanes wd' k = None)
     \<and> max_generated_row wd \<le> max_generated_row wd'"
proof -
  assume a: "World_update dt camera_row diff wd = Inr wd'"
  let ?wd1 = "generate_up_to (camera_row + LANE_LOOKAHEAD) wd"
  obtain wd2 where u: "update_lanes dt diff
      [max 0 (camera_row - 10) .. camera_row + LANE_LOOKAHEAD] ?wd1 = Inr wd2"
    and w: "wd' = prune (camera_row - 30) wd2"
    using a by (auto simp: World_update_def Let_def split: sum.splits)
  have "max_generated_row wd2 = max_generated_row ?wd1" using update_lanes_frame[OF u] by simp
  moreover have "max_generated_row wd \<le> max_generated_row ?wd1"
    by (simp add: generate_up_to_def generate_rows_mgr_ge)
  ultimately show ?thesis by (simp add: w prune_lanes prune_mgr)
qed

lemma reachable_inv: "reachable lo wd \<Longrightarrow> 0 \<le> lo \<and> rows_present lo wd \<and> rows_bounded wd"
proof (induction rule: reachable.induct)
  case (init g)
  show ?case using World_init_rows[of g] by simp
next
  case (update lo wd dt camera_row diff wd')
  from update.IH have "rows_present lo wd" and "rows_bounded wd" and "0 \<le> lo" by simp_all
  with World_update_rows[OF _ _ update.hyps(2)] show ?case by simp
next
  case (lookup lo wd row)
  from lookup.IH have "rows_present lo wd" and "rows_bounded wd" and "0 \<le> lo" by simp_all
  with lane_at_rows[OF _ _ lookup.hyps(2)] show ?case by simp
next
  case (ahead lo wd target_row)
  then show ?case by (simp add: generate_up_to_present generate_up_to_bounded)
qed

text \<open>
  Claim C7, as amended. In every world reached from \<^verbatim>\<open>World.__init__\<close> by
  \<^verbatim>\<open>World.update\<close> (any camera row) and by \<^verbatim>\<open>lane_at\<close> on rows at most one past the
  highest generated row, every row from the prune line \<open>lo\<close> (the largest
  \<open>camera_row - 30\<close> seen, at least 0) up to the highest generated row is present and no
  row above the highest generated row is present; rows below the prune line may be
  missing. \<^verbatim>\<open>_generate_up_to\<close> with target \<open>t\<close> makes the highest generated row the
  maximum of the old one and \<open>t\<close>, builds every row above the old highest row up to
  \<open>t\<close> (none of them was present) and leaves every other row as it is. It builds them
  in strictly increasing order: the first row built is the one right above the highest
  generated row, from the open columns of the row before it, and generating up to \<open>t\<close>
  is generating up to any row \<open>s\<close> in between first and going on from the world so
  reached.
\<close>

theorem reachable_world_rows:
  assumes "reachable lo wd"
  shows "0 \<le> lo
     \<and> (\<forall>r. lo \<le> r \<and> r \<le> max_generated_row wd \<longrightarrow> lanes wd r \<noteq> None)
     \<and> (\<forall>r. lanes wd r \<noteq> None \<longrightarrow> r \<le> max_generated_row wd)
     \<and> (\<forall>t. max_generated_row (generate_up_to t wd) = max (max_generated_row wd) t
            \<and> (\<forall>r. max_generated_row wd < r \<and> r \<le> t \<longrightarrow>
                   lanes wd r = None \<and> lanes (generate_up_to t wd) r \<noteq> None)
            \<and> (\<forall>r. r \<le> max_generated_row wd \<or> t < r \<longrightarrow>
                   lanes (generate_up_to t wd) r = lanes wd r))
     \<and> generate_up_to (max_generated_row wd + 1) wd =
           ensure_lane (max_generated_row wd + 1) None
             (Some (case lanes wd (max_generated_row wd) of
                      Some l \<Rightarrow> open_cols l
                    | None \<Rightarrow> {0..<GRID_W})) wd
     \<and> (\<forall>s t. max_generated_row wd \<le> s \<and> s \<le> t \<longrightarrow>
            generate_up_to t wd = generate_up_to t (generate_up_to s wd))"
proof -
  from reachable_inv[OF assms]
  have lo: "0 \<le> lo" and p: "rows_present lo wd" and b: "rows_bounded wd" by simp_all
  let ?m = "max_generated_row wd"
  have absent: "lanes wd r = None" if "?m < r" for r
    using b that by (fastforce simp: rows_bounded_def)
  have built: "lanes (generate_up_to t wd) r \<noteq> None" if "?m < r" "r \<le> t" for r t
  proof -
    have "r \<in> set [?m + 1 .. t]" using that by simp
    then show ?thesis unfolding generate_up_to_def by (rule generate_rows_present)
  qed
  have kept: "lanes (generate_up_to t wd) r = lanes wd r" if "r \<le> ?m \<or> t < r" for r t
  proof -
    have "r \<notin> set [?m + 1 .. t]" using that by auto
    then show ?thesis unfolding generate_up_to_def by (rule generate_rows_other)
  qed
  have comp: "generate_up_to t wd = generate_up_to t (generate_up_to s wd)"
    if "?m \<le> s \<and> s \<le> t" for s t
    using generate_up_to_compose[OF b] that by simp
  show ?thesis
    using lo p b generate_up_to_mgr[OF b] absent built kept generate_up_to_first[of wd] comp
    unfolding rows_present_def rows_bounded_def by blast
qed

theorem reachable_world_rows_witness:
  "reachable 0 (World_init env0)
   \<and> lanes (World_init env0) 0 \<noteq> None
   \<and> lanes (World_init env0) 61 \<noteq> None
   \<and> lanes (World_init env0) 62 = None
   \<and> max_generated_row (generate_up_to 64 (World_init env0)) = 64
   \<and> lanes (generate_up_to 64 (World_init env0)) 63 \<noteq> None
   \<and> generate_up_to 64 (World_init env0)
       = generate_up_to 64 (generate_up_to 62 (World_init env0))"
proof -
  have r: "reachable 0 (World_init env0)" by (rule reachable.init)
  have m: "max_generated_row (World_init env0) = 61"
    using World_init_rows[of env0] by (simp add: START_SAFE_ROWS_def LANE_LOOKAHEAD_def)
  from reachable_world_rows[OF r] have
    a: "\<forall>r. 0 \<le> r \<and> r \<le> 61 \<longrightarrow> lanes (World_init env0) r \<noteq> None"
    and c: "\<forall>t. max_generated_row (generate_up_to t (World_init env0)) = max 61 t
            \<and> (\<forall>r. 61 < r \<and> r \<le> t \<longrightarrow>
                   lanes (World_init env0) r = None
                   \<and> lanes (generate_up_to t (World_init env0)) r \<noteq> None)
            \<and> (\<forall>r. r \<le> 61 \<or> t < r \<longrightarrow>
                   lanes (generate_up_to t (World_init env0)) r = lanes (World_init env0) r)"
    and d: "\<forall>s t. 61 \<le> s \<and> s \<le> t \<longrightarrow>
            generate_up_to t (World_init env0)
              = generate_up_to t (generate_up_to s (World_init env0))"
    unfolding m by blast+
  have l0: "lanes (World_init env0) 0 \<noteq> None" using a by simp
  have l61: "lanes (World_init env0) 61 \<noteq> None" using a by simp
  have c64: "max_generated_row (generate_up_to 64 (World_init env0)) = max 61 64
            \<and> (\<forall>r. 61 < r \<and> r \<le> 64 \<longrightarrow>
                   lanes (World_init env0) r = None
                   \<and> lanes (generate_up_to 64 (World_init env0)) r \<noteq> None)"
    using c by blast
  have l62: "lanes (World_init env0) 62 = None" using c64 by simp
  have m64: "max_generated_row (generate_up_to 64 (World_init env0)) = 64" using c64 by simp
  have l63: "lanes (generate_up_to 64 (World_init env0)) 63 \<noteq> None" using c64 by simp
  have g: "generate_up_to 64 (World_init env0)
             = generate_up_to 64 (generate_up_to 62 (World_init env0))"
    using d by simp
  from r l0 l61 l62 m64 l63 g show ?thesis by (intro conjI)
qed

text \<open>
  The claim as it stands fails after an update: with camera row 31 the update deletes
  every row below 1, so row 0 is missing although the highest generated row is not below 0.
\<close>

theorem pruned_row_counterexample:
  "(case World_update (1 / 60) 31 1 (World_init env0) of
      Inl e \<Rightarrow> False
    | Inr wd \<Rightarrow> lanes wd 0 = None \<and> 0 \<le> max_generated_row wd)"
proof -
  have "(1::real) \<noteq> 0" by simp
  from World_update_total[OF this]
  obtain wd where w: "World_update (1 / 60) 31 1 (World_init env0) = Inr wd" by blast
  have m: "max_generated_row (World_init env0) = 61"
    using World_init_rows[of env0] by (simp add: START_SAFE_ROWS_def LANE_LOOKAHEAD_def)
  from World_update_pruned[OF w] m have "lanes wd 0 = None \<and> 0 \<le> max_generated_row wd"
    by simp
  with w show ?thesis by simp
qed

section \<open>Lanes generated on demand\<close>

lemma randbelow_env0: "randbelow n env0 = (0, env0)"
  by (simp add: randbelow_def env0_def)

lemma random_env0: "random env0 = (0, env0)"
  by (simp add: random_def env0_def)

lemma uniform_env0: "uniform a b env0 = (a, env0)"
  by (simp add: uniform_def random_env0)

lemma choice_env0: "choice xs env0 = (xs ! 0, env0)"
  by (simp add: choice_def randbelow_env0)

lemma randint_env0: "randint a b env0 = (a, env0)"
  by (simp add: randint_def randbelow_env0)

lemma randrange_env0: "randrange n env0 = (0, env0)"
  by (simp add: randrange_def randbelow_env0)

lemma shuffle_loop_env0: "snd (shuffle_loop i xs env0) = env0"
  by (induction i arbitrary: xs) (simp_all add: randbelow_env0)

lemma shuffle_nine_env0:
  "shuffle [a, b, c, d, e, f, g, h, i] env0 = ([b, c, d, e, f, g, h, i, a], env0)"
proof -
  have n: "length [a, b, c, d, e, f, g, h, i] - 1 = Suc (Suc (Suc (Suc (Suc (Suc (Suc (Suc 0)))))))"
    by simp
  show ?thesis unfolding shuffle_def n by (simp add: randbelow_env0)
qed

lemma corridor_cols_0_2: "corridor_cols 0 2 = {0, 1}"
proof -
  have "[- (2 div 2) .. (2 div 2 + 1) - 1] = [-1, 0, 1::int]" by (simp add: upto_rec1)
  then show ?thesis by (auto simp: corridor_cols_def GRID_W_def)
qed

lemma candidates_0_1: "candidates {0, 1} = [2, 3, 4, 5, 6, 7, 8, 9, 10]"
  by (simp add: candidates_def GRID_W_def upto_rec1)

lemma init_grass_env0:
  "init_grass None (blank_lane 62 LANE_GRASS) env0 =
     ((blank_lane 62 LANE_GRASS)\<lparr>blocked_cols := {3, 4}\<rparr>, env0)"
proof -
  have r: "\<not> l_row (blank_lane 62 LANE_GRASS) < START_SAFE_ROWS"
    and b: "blocked_cols (blank_lane 62 LANE_GRASS) = {}"
    by (simp_all add: blank_lane_def START_SAFE_ROWS_def)
  have c: "corridor_center None env0 = (0, env0)"
    by (simp add: corridor_center_def randrange_env0)
  have w: "choice [2, 3] env0 = (2::int, env0)" by (simp add: choice_env0)
  have l: "block_loop 2 [3, 4, 5, 6, 7, 8, 9, 10, 2] {} = {3, 4}"
    by (auto simp: GRID_W_def)
  have d: "{3, 4} - {0, 1} = {3, 4::int}" by auto
  have "init_grass None (blank_lane 62 LANE_GRASS) env0 =
          ((blank_lane 62 LANE_GRASS)
             \<lparr>blocked_cols := block_loop 2 [3, 4, 5, 6, 7, 8, 9, 10, 2] {} - {0, 1}\<rparr>, env0)"
    unfolding init_grass_def
    by (simp add: r b c w randint_env0 corridor_cols_0_2 candidates_0_1 shuffle_nine_env0
          del: block_loop.simps)
  then show ?thesis unfolding l d .
qed

lemma Lane_init_env0:
  "Lane_init 62 LANE_GRASS None env0 = ((blank_lane 62 LANE_GRASS)\<lparr>blocked_cols := {3, 4}\<rparr>, env0)"
proof -
  have "Lane_init 62 LANE_GRASS None env0 = init_grass None (blank_lane 62 LANE_GRASS) env0"
    by (simp add: Lane_init_def choice_env0 uniform_env0 blank_lane_def TRAIN_INTERVAL_MIN_def)
  then show ?thesis by (simp add: init_grass_env0)
qed

lemma choose_world61: "choose_next_lane_type 62 world61 = (LANE_GRASS, world61)"
proof -
  have "recent_types world61 62 = [LANE_GRASS]"
    by (simp add: recent_types_def world61_def blank_lane_def)
  then show ?thesis
    by (simp add: choose_next_lane_type_def lane_weights_def uniform_env0 world61_def)
qed

text \<open>A lane generated by \<^verbatim>\<open>lane_at\<close> is built with \<^verbatim>\<open>prev_open_cols=None\<close>, whatever
  the row before holds.\<close>

lemma lane_at_fresh_row:
  assumes "lanes wd row = None"
  shows "fst (lane_at row wd) =
           fst (Lane_init row (fst (choose_next_lane_type row wd)) None
                  (w_rng (snd (choose_next_lane_type row wd))))"
  using assms by (simp add: lane_at_def ensure_lane_def Let_def case_prod_beta)

text \<open>Once a row exists, \<^verbatim>\<open>lane_at\<close> returns it and changes nothing.\<close>

lemma lane_at_idempotent:
  "lane_at row (snd (lane_at row wd)) = (fst (lane_at row wd), snd (lane_at row wd))"
proof -
  let ?wd = "ensure_lane row None None wd"
  have "lanes ?wd row \<noteq> None" by (rule ensure_lane_present)
  then have "ensure_lane row None None ?wd = ?wd" by (rule ensure_lane_idem)
  then show ?thesis by (simp add: lane_at_def Let_def)
qed

text \<open>On the path of \<^verbatim>\<open>_generate_up_to\<close> the corridor centre does come from the open
  columns handed over.\<close>

lemma corridor_center_from_prev:
  assumes "finite s" and "s \<noteq> {}"
  shows "fst (corridor_center (Some s) g) \<in> s"
proof -
  let ?xs = "sorted_list_of_set s"
  have n: "length ?xs > 0" using assms by (simp add: card_gt_0_iff)
  have c: "card s > 0" using assms by (simp add: card_gt_0_iff)
  have "tape g 0 mod length ?xs < length ?xs" using n by simp
  then have "?xs ! (tape g 0 mod length ?xs) \<in> set ?xs" by (rule nth_mem)
  then have "?xs ! (tape g 0 mod length ?xs) \<in> s" using assms(1) by simp
  then show ?thesis using assms(2) c
    by (simp add: corridor_center_def choice_def randbelow_def)
qed

text \<open>
  Claim C8 at a failing input. Row 61 of \<^const>\<open>world61\<close> is a ground lane whose open
  columns are 2 to 10. \<^verbatim>\<open>lane_at(62)\<close> generates row 62 as a ground lane with the
  corridor \<open>{0, 1}\<close> around the centre 0 (trees on columns 3 and 4): the centre is not an
  open column of row 61, and no column of the corridor is. Built from the open columns
  of row 61, as \<^verbatim>\<open>_generate_up_to\<close> does, the corridor would be \<open>{1, 2, 3}\<close> around the
  centre 2.
\<close>

theorem lane_at_ignores_previous_row:
  "lanes world61 62 = None
   \<and> open_cols (the (lanes world61 61)) = {2..10}
   \<and> fst (lane_at 62 world61) = (blank_lane 62 LANE_GRASS)\<lparr>blocked_cols := {3, 4}\<rparr>
   \<and> fst (corridor_center None env0) = 0
   \<and> grass_corridor None env0 = {0, 1}
   \<and> grass_corridor None env0 \<inter> open_cols (the (lanes world61 61)) = {}
   \<and> fst (corridor_center (Some (open_cols (the (lanes world61 61)))) env0) = 2"
proof -
  have a: "lanes world61 62 = None" by (simp add: world61_def)
  have o: "open_cols (the (lanes world61 61)) = {2..10}"
    by (auto simp: world61_def open_cols_def blank_lane_def GRID_W_def)
  have l: "fst (lane_at 62 world61) = (blank_lane 62 LANE_GRASS)\<lparr>blocked_cols := {3, 4}\<rparr>"
    unfolding lane_at_fresh_row[OF a] choose_world61
    by (simp add: world61_def Lane_init_env0)
  have c: "fst (corridor_center None env0) = 0"
    by (simp add: corridor_center_def randrange_env0)
  have g: "grass_corridor None env0 = {0, 1}"
    by (simp add: grass_corridor_def corridor_center_def randrange_env0 choice_env0
          corridor_cols_0_2)
  have s: "sorted_list_of_set {2..10::int} = [2, 3, 4, 5, 6, 7, 8, 9, 10]"
  proof -
    have "{2..10::int} = set [2, 3, 4, 5, 6, 7, 8, 9, 10]" by auto
    then show ?thesis by (simp only: sorted_list_of_set_sort_remdups) simp
  qed
  have p: "fst (corridor_center (Some {2..10}) env0) = 2"
    by (simp add: corridor_center_def choice_env0 s)
  have d: "{0, 1} \<inter> {2..10::int} = {}" by auto
  from a o l c g p d show ?thesis by simp
qed

section \<open>The no-overlap pass\<close>

lemma push_loop_length: "length (push_loop p xs) = length xs"
  by (induction xs arbitrary: p) (simp_all add: Let_def)

lemma push_loop_oid: "map oid (push_loop p xs) = map oid xs"
  by (induction xs arbitrary: p) (simp_all add: Let_def)

lemma push_loop_w: "map ob_w (push_loop p xs) = map ob_w xs"
  by (induction xs arbitrary: p) (simp_all add: Let_def)

lemma push_loop_dir: "map ob_dir (push_loop p xs) = map ob_dir xs"
  by (induction xs arbitrary: p) (simp_all add: Let_def)

lemma push_loop_speed: "map ob_base_speed (push_loop p xs) = map ob_base_speed xs"
  by (induction xs arbitrary: p) (simp_all add: Let_def)

lemma push_loop_chained: "chained p (push_loop p xs)"
  by (induction xs arbitrary: p) (simp_all add: Let_def)

lemma chained_separated:
  "chained p ys \<Longrightarrow> 0 \<le> ob_w p \<Longrightarrow> \<forall>b\<in>set ys. 0 \<le> ob_w b \<Longrightarrow> separated (p # ys)"
proof (induction ys arbitrary: p)
  case Nil
  then show ?case by simp
next
  case (Cons c rest)
  from Cons.prems have pc: "ob_x p + ob_w p + MIN_GAP \<le> ob_x c" and ch: "chained c rest"
    and wc: "0 \<le> ob_w c" and wr: "\<forall>b\<in>set rest. 0 \<le> ob_w b" by simp_all
  have s: "separated (c # rest)" using ch wc wr by (rule Cons.IH)
  have g: "0 \<le> MIN_GAP" by (simp add: MIN_GAP_def TILE_def)
  have "\<forall>b\<in>set rest. ob_x p + ob_w p + MIN_GAP \<le> ob_x b"
  proof
    fix b
    assume "b \<in> set rest"
    then have "ob_x c + ob_w c + MIN_GAP \<le> ob_x b" using s by simp
    then show "ob_x p + ob_w p + MIN_GAP \<le> ob_x b" using pc wc g by linarith
  qed
  then show ?case using pc s by simp
qed

lemma separated_sorted:
  "separated xs \<Longrightarrow> \<forall>b\<in>set xs. 0 \<le> ob_w b \<Longrightarrow> sorted (map ob_x xs)"
proof (induction xs)
  case Nil
  then show ?case by simp
next
  case (Cons a rest)
  have g: "0 \<le> MIN_GAP" by (simp add: MIN_GAP_def TILE_def)
  have "\<forall>b\<in>set rest. ob_x a \<le> ob_x b"
  proof
    fix b
    assume "b \<in> set rest"
    then have "ob_x a + ob_w a + MIN_GAP \<le> ob_x b" using Cons.prems(1) by simp
    moreover have "0 \<le> ob_w a" using Cons.prems(2) by simp
    ultimately show "ob_x a \<le> ob_x b" using g by linarith
  qed
  moreover have "sorted (map ob_x rest)" using Cons by simp
  ultimately show ?case by simp
qed

lemma separated_nth:
  "separated xs \<Longrightarrow> i < j \<Longrightarrow> j < length xs \<Longrightarrow>
     ob_x (xs ! i) + ob_w (xs ! i) + MIN_GAP \<le> ob_x (xs ! j)"
proof (induction xs arbitrary: i j)
  case Nil
  then show ?case by simp
next
  case (Cons a rest)
  show ?case
  proof (cases i)
    case 0
    then obtain j' where j: "j = Suc j'" using Cons.prems(2) by (cases j) auto
    then have "rest ! j' \<in> set rest" using Cons.prems(3) by simp
    then show ?thesis using Cons.prems(1) 0 j by simp
  next
    case (Suc i')
    then obtain j' where j: "j = Suc j'" using Cons.prems(2) by (cases j) auto
    then show ?thesis using Cons.IH[of i' j'] Cons.prems Suc by simp
  qed
qed

text \<open>The obstacles after the pass: the sorted list, each obstacle pushed right where
  needed, in the same order, with its identity, width, direction and speed.\<close>

lemma enforce_obstacles:
  "\<exists>ys. obstacles (enforce_no_overlap l) = ys
     \<and> length ys = length (obstacles l)
     \<and> map oid ys = map oid (sort_key ob_x (obstacles l))
     \<and> map ob_w ys = map ob_w (sort_key ob_x (obstacles l))
     \<and> map ob_dir ys = map ob_dir (sort_key ob_x (obstacles l))
     \<and> map ob_base_speed ys = map ob_base_speed (sort_key ob_x (obstacles l))
     \<and> (case ys of [] \<Rightarrow> True | p # rest \<Rightarrow> chained p rest)"
proof (cases "length (obstacles l) \<le> 1")
  case True
  then consider "obstacles l = []" | a where "obstacles l = [a]"
    by (cases "obstacles l") (auto simp: Suc_le_eq)
  then show ?thesis
    by cases (simp_all add: enforce_no_overlap_def)
next
  case False
  show ?thesis
  proof (cases "sort_key ob_x (obstacles l)")
    case Nil
    then have "obstacles l = []" by (metis length_sort list.size(3) length_0_conv)
    with False show ?thesis by simp
  next
    case (Cons p rest)
    have len: "length (sort_key ob_x (obstacles l)) = length (obstacles l)" by simp
    have "obstacles (enforce_no_overlap l) = p # push_loop p rest"
      using False Cons by (simp add: enforce_no_overlap_def)
    then show ?thesis
      using Cons len
      by (simp add: push_loop_length push_loop_oid push_loop_w push_loop_dir push_loop_speed
            push_loop_chained)
  qed
qed

lemma enforce_frame:
  "l_type (enforce_no_overlap l) = l_type l \<and> direction (enforce_no_overlap l) = direction l
   \<and> base_speed (enforce_no_overlap l) = base_speed l"
  by (simp add: enforce_no_overlap_def split: list.splits)

lemma set_map_eq: "map f xs = map f ys \<Longrightarrow> (\<forall>a\<in>set ys. P (f a)) \<Longrightarrow> \<forall>a\<in>set xs. P (f a)"
proof -
  assume m: "map f xs = map f ys" and p: "\<forall>a\<in>set ys. P (f a)"
  have "f ` set xs = f ` set ys" using m by (metis set_map)
  then show ?thesis using p by (metis (no_types, lifting) image_iff)
qed

lemma enforce_separated:
  assumes "\<forall>ob\<in>set (obstacles l). 0 \<le> ob_w ob"
  shows "separated (obstacles (enforce_no_overlap l))
         \<and> (\<forall>ob\<in>set (obstacles (enforce_no_overlap l)). 0 \<le> ob_w ob)"
proof -
  from enforce_obstacles[of l] obtain ys where
    ys: "obstacles (enforce_no_overlap l) = ys"
    and w: "map ob_w ys = map ob_w (sort_key ob_x (obstacles l))"
    and c: "case ys of [] \<Rightarrow> True | p # rest \<Rightarrow> chained p rest"
    by blast
  have "\<forall>ob\<in>set (sort_key ob_x (obstacles l)). 0 \<le> ob_w ob" using assms by simp
  then have wy: "\<forall>ob\<in>set ys. 0 \<le> ob_w ob" using set_map_eq[OF w] by blast
  have "separated ys"
  proof (cases ys)
    case Nil
    then show ?thesis by simp
  next
    case (Cons p rest)
    then have "chained p rest" using c by simp
    then show ?thesis using wy Cons chained_separated by simp
  qed
  with wy ys show ?thesis by simp
qed
section \<open>Spawning\<close>

lemma randbelow_fresh: "randbelow n g = (k, g') \<Longrightarrow> fresh g' = fresh g"
  by (auto simp: randbelow_def)

lemma uniform_fresh: "uniform a b g = (u, g') \<Longrightarrow> fresh g' = fresh g"
  by (auto simp: uniform_def random_def)

lemma choice_fresh: "choice xs g = (c, g') \<Longrightarrow> fresh g' = fresh g"
  by (auto simp: choice_def randbelow_def)

lemma choice_mem: "xs \<noteq> [] \<Longrightarrow> choice xs g = (c, g') \<Longrightarrow> c \<in> set xs"
  by (auto simp: choice_def randbelow_def)

lemma edge_spawn_x_fresh: "edge_spawn_x l wd g = (xpos, g') \<Longrightarrow> fresh g' = fresh g"
  by (auto simp: edge_spawn_x_def split: if_splits prod.splits dest: uniform_fresh)

lemma spawn_with_width:
  assumes "0 \<le> wd" and "fresh g = fresh g0"
  shows "spawned l g0
     (fst (case edge_spawn_x l wd g of (xpos, g1) \<Rightarrow>
           if can_spawn_with_gap l xpos wd then
             (case new_obstacle xpos wd (base_speed l) (direction l) g1 of
                (ob, g2) \<Rightarrow> (l\<lparr>obstacles := obstacles l @ [ob]\<rparr>, g2))
           else (l, g1)))
     (snd (case edge_spawn_x l wd g of (xpos, g1) \<Rightarrow>
           if can_spawn_with_gap l xpos wd then
             (case new_obstacle xpos wd (base_speed l) (direction l) g1 of
                (ob, g2) \<Rightarrow> (l\<lparr>obstacles := obstacles l @ [ob]\<rparr>, g2))
           else (l, g1)))"
proof -
  obtain xpos g1 where e: "edge_spawn_x l wd g = (xpos, g1)" by (cases "edge_spawn_x l wd g")
  have f: "fresh g1 = fresh g0" using edge_spawn_x_fresh[OF e] assms(2) by simp
  show ?thesis
    using assms(1) f by (simp add: e spawned_def new_obstacle_def)
qed

lemma spawn_obstacle_spawned: "spawned l g (fst (spawn_obstacle l g)) (snd (spawn_obstacle l g))"
proof -
  consider (road) "l_type l = LANE_ROAD" | (river) "l_type l = LANE_RIVER"
    | (other) "l_type l \<noteq> LANE_ROAD \<and> l_type l \<noteq> LANE_RIVER" by blast
  then show ?thesis
  proof cases
    case road
    have "0 \<le> real_of_int TILE" by (simp add: TILE_def)
    from spawn_with_width[OF this refl, of l g] show ?thesis
      using road by (simp add: spawn_obstacle_def Let_def)
  next
    case river
    obtain w_tiles g0 where c: "choice [2, 2, 3] g = (w_tiles :: int, g0)"
      by (cases "choice [2, 2, 3::int] g")
    have "w_tiles \<in> set [2, 2, 3]" using choice_mem[OF _ c] by simp
    then have "0 \<le> real_of_int w_tiles * real_of_int TILE" by (auto simp: TILE_def)
    from spawn_with_width[OF this choice_fresh[OF c], of l] show ?thesis
      using river by (simp add: spawn_obstacle_def Let_def c)
  next
    case other
    then show ?thesis by (simp add: spawn_obstacle_def spawned_def)
  qed
qed

lemma update_spawn_road_river:
  assumes "l_type l = LANE_ROAD \<or> l_type l = LANE_RIVER" and "diff \<noteq> 0"
  shows "\<exists>l3 g3. update_spawn dt diff l g = Inr (enforce_no_overlap l3, g3)
           \<and> spawned l g l3 g3"
proof (cases "spawn_timer l + dt \<ge> base_spawn_interval l / diff")
  case False
  then have "update_spawn dt diff l g
               = Inr (enforce_no_overlap (l\<lparr>spawn_timer := spawn_timer l + dt\<rparr>), g)"
    using assms by (simp add: update_spawn_def Let_def)
  moreover have "spawned l g (l\<lparr>spawn_timer := spawn_timer l + dt\<rparr>) g"
    by (simp add: spawned_def)
  ultimately show ?thesis by blast
next
  case True
  let ?l1 = "l\<lparr>spawn_timer := spawn_timer l + dt\<rparr>"
  obtain bi g1 where u: "(if l_type ?l1 = LANE_ROAD then uniform CAR_SPAWN_MIN CAR_SPAWN_MAX g
                          else uniform LOG_SPAWN_MIN LOG_SPAWN_MAX g) = (bi, g1)"
    by (cases "if l_type ?l1 = LANE_ROAD then uniform CAR_SPAWN_MIN CAR_SPAWN_MAX g
               else uniform LOG_SPAWN_MIN LOG_SPAWN_MAX g")
  have f: "fresh g1 = fresh g" using u by (auto split: if_splits dest: uniform_fresh)
  let ?l2 = "?l1\<lparr>spawn_timer := 0, base_spawn_interval := bi\<rparr>"
  let ?l3 = "fst (spawn_obstacle ?l2 g1)" and ?g3 = "snd (spawn_obstacle ?l2 g1)"
  have "update_spawn dt diff l g = Inr (enforce_no_overlap ?l3, ?g3)"
    using assms True u by (simp add: update_spawn_def Let_def case_prod_beta)
  moreover have "spawned l g ?l3 ?g3"
    using spawn_obstacle_spawned[of ?l2 g1] f by (simp add: spawned_def)
  ultimately show ?thesis by blast
qed

lemma Lane_update_road_river:
  assumes "l_type l = LANE_ROAD \<or> l_type l = LANE_RIVER" and "diff \<noteq> 0"
  shows "\<exists>l3 g3. Lane_update dt diff l g = Inr (enforce_no_overlap l3, g3)
           \<and> spawned (update_move_cull dt diff l) g l3 g3"
proof -
  let ?l1 = "update_move_cull dt diff l"
  have t: "l_type ?l1 = LANE_ROAD \<or> l_type ?l1 = LANE_RIVER"
    using assms(1) by (simp add: update_move_cull_def Let_def)
  from update_spawn_road_river[OF t assms(2), of dt g] obtain l3 g3 where
    u: "update_spawn dt diff ?l1 g = Inr (enforce_no_overlap l3, g3)"
    and s: "spawned ?l1 g l3 g3" by blast
  have "l_type (enforce_no_overlap l3) \<noteq> LANE_RAIL"
    using s t by (auto simp: enforce_frame spawned_def)
  then have "Lane_update dt diff l g = Inr (enforce_no_overlap l3, g3)"
    by (simp add: Lane_update_def u update_train_def)
  with s show ?thesis by blast
qed
section \<open>One update of a road or river lane\<close>

lemma move_cull_set:
  "set (obstacles (update_move_cull dt diff l)) \<subseteq> Obstacle_update dt diff ` set (obstacles l)"
  by (auto simp: update_move_cull_def Let_def)

lemma move_cull_distinct:
  "distinct (map oid (obstacles l)) \<Longrightarrow>
     distinct (map oid (obstacles (update_move_cull dt diff l)))"
proof -
  assume d: "distinct (map oid (obstacles l))"
  have "oid \<circ> Obstacle_update dt diff = oid" by (auto simp: Obstacle_update_def)
  then have "distinct (map oid (map (Obstacle_update dt diff) (obstacles l)))" using d by simp
  then show ?thesis
    unfolding update_move_cull_def Let_def by (simp add: distinct_map_filter)
qed

lemma move_cull_frame:
  "l_type (update_move_cull dt diff l) = l_type l
   \<and> direction (update_move_cull dt diff l) = direction l
   \<and> base_speed (update_move_cull dt diff l) = base_speed l"
  by (simp add: update_move_cull_def Let_def)

lemma mid_list:
  assumes u: "uniform_lane l g" and s: "spawned (update_move_cull dt diff l) g l3 g3"
  shows "distinct (map oid (obstacles l3))
     \<and> (\<forall>m\<in>set (obstacles l3).
           ob_dir m = direction l \<and> ob_base_speed m = base_speed l \<and> oid m < fresh g3)
     \<and> (\<forall>m\<in>set (obstacles l3). oid m < fresh g \<longrightarrow>
           (\<exists>a\<in>set (obstacles l). m = Obstacle_update dt diff a))
     \<and> direction l3 = direction l \<and> base_speed l3 = base_speed l"
proof -
  let ?l1 = "update_move_cull dt diff l"
  have old: "\<forall>m\<in>set (obstacles ?l1).
      ob_dir m = direction l \<and> ob_base_speed m = base_speed l \<and> oid m < fresh g
      \<and> (\<exists>a\<in>set (obstacles l). m = Obstacle_update dt diff a)"
  proof
    fix m
    assume "m \<in> set (obstacles ?l1)"
    then obtain a where a: "a \<in> set (obstacles l)" and m: "m = Obstacle_update dt diff a"
      using move_cull_set[of dt diff l] by blast
    have "ob_dir a = direction l \<and> ob_base_speed a = base_speed l \<and> oid a < fresh g"
      using u a by (simp add: uniform_lane_def)
    then have "ob_dir m = direction l \<and> ob_base_speed m = base_speed l \<and> oid m < fresh g"
      using m by (simp add: Obstacle_update_def)
    moreover have "\<exists>a\<in>set (obstacles l). m = Obstacle_update dt diff a" using a m by blast
    ultimately show "ob_dir m = direction l \<and> ob_base_speed m = base_speed l \<and> oid m < fresh g
      \<and> (\<exists>a\<in>set (obstacles l). m = Obstacle_update dt diff a)" by blast
  qed
  have d1: "distinct (map oid (obstacles ?l1))"
    using u by (simp add: uniform_lane_def move_cull_distinct)
  have fr: "direction l3 = direction l \<and> base_speed l3 = base_speed l"
    using s by (simp add: spawned_def move_cull_frame)
  from s consider
      (same) "obstacles l3 = obstacles ?l1" "fresh g3 = fresh g"
    | (new) ob where "obstacles l3 = obstacles ?l1 @ [ob]" "oid ob = fresh g"
        "ob_dir ob = direction ?l1" "ob_base_speed ob = base_speed ?l1"
        "fresh g3 = Suc (fresh g)"
    by (auto simp: spawned_def)
  then show ?thesis
  proof cases
    case same
    then show ?thesis using old d1 fr by auto
  next
    case new
    have "oid ob \<notin> set (map oid (obstacles ?l1))" using old new(2) by auto
    then have "distinct (map oid (obstacles l3))" using d1 new(1) by simp
    moreover have "\<forall>m\<in>set (obstacles l3).
        ob_dir m = direction l \<and> ob_base_speed m = base_speed l \<and> oid m < fresh g3"
      using old new by (auto simp: move_cull_frame)
    moreover have "\<forall>m\<in>set (obstacles l3). oid m < fresh g \<longrightarrow>
        (\<exists>a\<in>set (obstacles l). m = Obstacle_update dt diff a)"
      using old new by auto
    ultimately show ?thesis using fr by blast
  qed
qed

lemma distinct_map_insort:
  "distinct (map f (insort_key k x xs)) = (f x \<notin> f ` set xs \<and> distinct (map f xs))"
  by (induction xs) (auto simp: set_insort_key)

lemma distinct_map_sort: "distinct (map f (sort_key k xs)) = distinct (map f xs)"
  by (induction xs) (simp_all add: distinct_map_insort)

lemma nth_of_oid:
  assumes "distinct (map oid ys)" and "a \<in> set ys" and "i < length ys"
    and "oid (ys ! i) = oid a"
  shows "ys ! i = a"
proof -
  obtain k where k: "k < length ys" "ys ! k = a" using assms(2) by (auto simp: in_set_conv_nth)
  have "map oid ys ! i = map oid ys ! k" using assms(3,4) k by simp
  then have "i = k" using nth_eq_iff_index_eq[OF assms(1), of i k] assms(3) k(1) by simp
  then show ?thesis using k by simp
qed

text \<open>The pass does not reorder: obstacles keep the order of their positions.\<close>

lemma no_reorder:
  assumes sep: "separated ys" and wy: "\<forall>b\<in>set ys. 0 \<le> ob_w b"
    and oids: "map oid ys = map oid S" and srt: "sorted (map ob_x S)"
    and dist: "distinct (map oid S)"
    and m1: "m1 \<in> set S" and m2: "m2 \<in> set S" and lt: "ob_x m1 < ob_x m2"
    and a': "a' \<in> set ys" "oid a' = oid m1" and b': "b' \<in> set ys" "oid b' = oid m2"
  shows "ob_x a' < ob_x b'"
proof -
  have len: "length ys = length S" using oids by (metis length_map)
  obtain i where i: "i < length S" "S ! i = m1" using m1 by (auto simp: in_set_conv_nth)
  obtain j where j: "j < length S" "S ! j = m2" using m2 by (auto simp: in_set_conv_nth)
  have dy: "distinct (map oid ys)" using dist oids by simp
  have oi: "oid (ys ! i) = oid m1"
    using i len oids by (metis nth_map)
  have oj: "oid (ys ! j) = oid m2"
    using j len oids by (metis nth_map)
  have ai: "ys ! i = a'" using nth_of_oid[OF dy a'(1)] i(1) len oi a'(2) by simp
  have bj: "ys ! j = b'" using nth_of_oid[OF dy b'(1)] j(1) len oj b'(2) by simp
  have "i < j"
  proof (rule ccontr)
    assume "\<not> i < j"
    then have "j \<le> i" by simp
    then have "map ob_x S ! j \<le> map ob_x S ! i"
      using sorted_nth_mono[OF srt, of j i] i(1) by simp
    then show False using i j lt by simp
  qed
  then have "ob_x (ys ! i) + ob_w (ys ! i) + MIN_GAP \<le> ob_x (ys ! j)"
    using sep j(1) len by (simp add: separated_nth)
  moreover have "0 \<le> ob_w (ys ! i)" using wy i(1) len by simp
  moreover have "0 < MIN_GAP" by (simp add: MIN_GAP_def TILE_def)
  ultimately have "ob_x (ys ! i) < ob_x (ys ! j)" by linarith
  then show ?thesis by (simp add: ai bj)
qed

text \<open>
  Claim C1. One \<^verbatim>\<open>Lane.update\<close> of a road or river lane (difficulty not zero, widths
  not negative, as \<^verbatim>\<open>spawn_obstacle\<close> makes them) returns a lane whose obstacle list is
  separated: it is in the order of position, and every obstacle ends at least
  \<open>MIN_GAP\<close> before each obstacle to its right begins. This is the same inequality for
  both travel directions: for direction \<open>1\<close> the right obstacle is the forward one and
  its trailing edge is its left edge; for direction \<open>-1\<close> the left obstacle is the
  forward one and its trailing edge is its right edge. When moreover the obstacles have
  the lane's direction and speed and are distinct objects, this stays so, and no obstacle
  passes another: two obstacles that are still on the lane after the update are in the
  order of position they had before.
\<close>

theorem lane_update_keeps_gap:
  assumes ty: "l_type l = LANE_ROAD \<or> l_type l = LANE_RIVER" and d: "diff \<noteq> 0"
    and w: "\<forall>ob\<in>set (obstacles l). 0 \<le> ob_w ob"
  shows "\<exists>l' g'. Lane_update dt diff l g = Inr (l', g')
     \<and> sorted (map ob_x (obstacles l'))
     \<and> separated (obstacles l')
     \<and> (\<forall>ob\<in>set (obstacles l'). 0 \<le> ob_w ob)
     \<and> (uniform_lane l g \<longrightarrow>
          uniform_lane l' g'
          \<and> (\<forall>a\<in>set (obstacles l). \<forall>b\<in>set (obstacles l).
               \<forall>a'\<in>set (obstacles l'). \<forall>b'\<in>set (obstacles l').
                 oid a' = oid a \<and> oid b' = oid b \<and> ob_x a < ob_x b \<longrightarrow> ob_x a' < ob_x b'))"
proof -
  let ?l1 = "update_move_cull dt diff l"
  from Lane_update_road_river[OF ty d, of dt g] obtain l3 g3 where
    up: "Lane_update dt diff l g = Inr (enforce_no_overlap l3, g3)"
    and sp: "spawned ?l1 g l3 g3" by blast
  let ?l' = "enforce_no_overlap l3"
  let ?S = "sort_key ob_x (obstacles l3)"
  have w1: "\<forall>ob\<in>set (obstacles ?l1). 0 \<le> ob_w ob"
    using w move_cull_set[of dt diff l] by (auto simp: Obstacle_update_def)
  have w3: "\<forall>ob\<in>set (obstacles l3). 0 \<le> ob_w ob"
    using w1 sp by (auto simp: spawned_def)
  from enforce_separated[OF w3]
  have sep: "separated (obstacles ?l')" and wy: "\<forall>ob\<in>set (obstacles ?l'). 0 \<le> ob_w ob"
    by simp_all
  from enforce_obstacles[of l3] have
    eo: "map oid (obstacles ?l') = map oid ?S"
    and ed: "map ob_dir (obstacles ?l') = map ob_dir ?S"
    and es: "map ob_base_speed (obstacles ?l') = map ob_base_speed ?S"
    by simp_all
  have inv: "uniform_lane ?l' g3
     \<and> (\<forall>a\<in>set (obstacles l). \<forall>b\<in>set (obstacles l).
          \<forall>a'\<in>set (obstacles ?l'). \<forall>b'\<in>set (obstacles ?l').
            oid a' = oid a \<and> oid b' = oid b \<and> ob_x a < ob_x b \<longrightarrow> ob_x a' < ob_x b')"
    if u: "uniform_lane l g"
  proof -
    from mid_list[OF u sp] have
      dM: "distinct (map oid (obstacles l3))"
      and pM: "\<forall>m\<in>set (obstacles l3).
                 ob_dir m = direction l \<and> ob_base_speed m = base_speed l \<and> oid m < fresh g3"
      and oM: "\<forall>m\<in>set (obstacles l3). oid m < fresh g \<longrightarrow>
                 (\<exists>a\<in>set (obstacles l). m = Obstacle_update dt diff a)"
      and fM: "direction l3 = direction l" "base_speed l3 = base_speed l"
      by simp_all
    have dS: "distinct (map oid ?S)"
      using dM by (simp add: distinct_map_sort)
    have fr: "direction ?l' = direction l" "base_speed ?l' = base_speed l"
      using fM by (simp_all add: enforce_frame)
    have "\<forall>a\<in>set ?S. ob_dir a = direction l" using pM by simp
    then have q1: "\<forall>a\<in>set (obstacles ?l'). ob_dir a = direction l"
      using set_map_eq[OF ed, of "\<lambda>v. v = direction l"] by blast
    have "\<forall>a\<in>set ?S. ob_base_speed a = base_speed l" using pM by simp
    then have q2: "\<forall>a\<in>set (obstacles ?l'). ob_base_speed a = base_speed l"
      using set_map_eq[OF es, of "\<lambda>v. v = base_speed l"] by blast
    have "\<forall>a\<in>set ?S. oid a < fresh g3" using pM by simp
    then have q3: "\<forall>a\<in>set (obstacles ?l'). oid a < fresh g3"
      using set_map_eq[OF eo, of "\<lambda>v. v < fresh g3"] by blast
    have ul: "uniform_lane ?l' g3"
      using q1 q2 q3 dS eo fr by (simp add: uniform_lane_def)
    have np: "ob_x a' < ob_x b'"
      if a: "a \<in> set (obstacles l)" and b: "b \<in> set (obstacles l)"
        and a': "a' \<in> set (obstacles ?l')" and b': "b' \<in> set (obstacles ?l')"
        and e: "oid a' = oid a \<and> oid b' = oid b \<and> ob_x a < ob_x b"
      for a b a' b'
    proof -
      have inj: "x = y" if "x \<in> set (obstacles l)" "y \<in> set (obstacles l)" "oid x = oid y"
        for x y
        using u that by (auto simp: uniform_lane_def distinct_map dest: inj_onD)
      have moved: "Obstacle_update dt diff c \<in> set ?S"
        if c: "c \<in> set (obstacles l)" and c': "c' \<in> set (obstacles ?l')"
          and o: "oid c' = oid c" for c c'
      proof -
        have "oid c' \<in> set (map oid ?S)" using c' eo by (metis image_eqI set_map)
        then obtain m where m: "m \<in> set (obstacles l3)" "oid m = oid c'" by auto
        have "oid m < fresh g" using m(2) o u c by (simp add: uniform_lane_def)
        then obtain c0 where c0: "c0 \<in> set (obstacles l)" "m = Obstacle_update dt diff c0"
          using oM m(1) by blast
        have "oid c0 = oid c" using c0(2) m(2) o by (simp add: Obstacle_update_def)
        then have "c0 = c" using inj c0(1) c by blast
        then show ?thesis using m(1) c0(2) by simp
      qed
      have ma: "Obstacle_update dt diff a \<in> set ?S" using moved a a' e by blast
      have mb: "Obstacle_update dt diff b \<in> set ?S" using moved b b' e by blast
      have va: "ob_dir a = direction l \<and> ob_base_speed a = base_speed l"
        and vb: "ob_dir b = direction l \<and> ob_base_speed b = base_speed l"
        using u a b by (simp_all add: uniform_lane_def)
      have lt: "ob_x (Obstacle_update dt diff a) < ob_x (Obstacle_update dt diff b)"
        using e va vb by (simp add: Obstacle_update_def)
      have srt: "sorted (map ob_x ?S)" by simp
      show ?thesis
        using no_reorder[OF sep wy eo srt dS ma mb lt a'] b' e
        by (simp add: Obstacle_update_def)
    qed
    from ul np show ?thesis by blast
  qed
  have srt: "sorted (map ob_x (obstacles ?l'))" using sep wy by (rule separated_sorted)
  from up srt sep wy inv show ?thesis by blast
qed
lemma road2_update:
  "Lane_update (1 / 10) 1 road2 (env0\<lparr>fresh := 2\<rparr>) =
     Inr (road2\<lparr>obstacles := [car 0 112, car 1 196], spawn_timer := 1 / 10\<rparr>,
          env0\<lparr>fresh := 2\<rparr>)"
  by (simp add: Lane_update_def update_move_cull_def update_spawn_def update_train_def
        enforce_no_overlap_def Obstacle_update_def road2_def blank_lane_def car_def Let_def
        TILE_def SCREEN_W_def GRID_W_def MIN_GAP_def)

theorem lane_update_keeps_gap_witness:
  "l_type road2 = LANE_ROAD \<and> (1::real) \<noteq> 0 \<and> map ob_w (obstacles road2) = [48, 48]
   \<and> uniform_lane road2 (env0\<lparr>fresh := 2\<rparr>)
   \<and> Lane_update (1 / 10) 1 road2 (env0\<lparr>fresh := 2\<rparr>) =
       Inr (road2\<lparr>obstacles := [car 0 112, car 1 196], spawn_timer := 1 / 10\<rparr>,
            env0\<lparr>fresh := 2\<rparr>)
   \<and> separated [car 0 112, car 1 196]
   \<and> uniform_lane (road2\<lparr>obstacles := [car 0 112, car 1 196], spawn_timer := 1 / 10\<rparr>)
        (env0\<lparr>fresh := 2\<rparr>)"
proof -
  have h1: "l_type road2 = LANE_ROAD \<or> l_type road2 = LANE_RIVER"
    by (simp add: road2_def blank_lane_def)
  have h2: "(1::real) \<noteq> 0" by simp
  have h3: "\<forall>ob\<in>set (obstacles road2). 0 \<le> ob_w ob" by (simp add: road2_def car_def)
  have u: "uniform_lane road2 (env0\<lparr>fresh := 2\<rparr>)"
    by (simp add: uniform_lane_def road2_def car_def env0_def)
  from lane_update_keeps_gap[OF h1 h2 h3, of "1 / 10" "env0\<lparr>fresh := 2\<rparr>"] u
  obtain l' g' where
    r: "Lane_update (1 / 10) 1 road2 (env0\<lparr>fresh := 2\<rparr>) = Inr (l', g')"
    and s: "separated (obstacles l')" and v: "uniform_lane l' g'" by blast
  from r have l': "l' = road2\<lparr>obstacles := [car 0 112, car 1 196], spawn_timer := 1 / 10\<rparr>"
    and g': "g' = env0\<lparr>fresh := 2\<rparr>"
    unfolding road2_update by simp_all
  have t: "l_type road2 = LANE_ROAD" by (simp add: road2_def blank_lane_def)
  have w: "map ob_w (obstacles road2) = [48, 48]" by (simp add: road2_def car_def)
  have s': "separated [car 0 112, car 1 196]" using s unfolding l' by simp
  from t h2 w u road2_update s' v[unfolded l' g'] show ?thesis by (intro conjI)
qed

end
